theory Spec2Isabelle
  imports Main "HOL-Library.Char_ord" "HOL-Library.List_Lexorder"
begin

section \<open>Python control flow as values\<close>

text \<open>
  The exceptions the two scripts handle.  \<open>py_exc\<close> holds the instances of Python's
  \<open>Exception\<close> the code names in its handlers; \<open>raised\<close> is what can leave a
  function other than a return value: \<open>sys.exit(code)\<close>, Ctrl+C, or an \<open>Exception\<close>.
  Of these only \<open>Exc\<close> is caught by \<open>except Exception\<close>.
\<close>

datatype py_exc = FileNotFoundError | IOError | OtherException

datatype raised = SystemExit int | KeyboardInterrupt | Exc py_exc

section \<open>compare\_md5.py\<close>

type_synonym bytes = string
type_synonym digest = string

text \<open>
  A directory entry: a regular file, with what opening and reading it yields (its bytes,
  or the exception \<open>open\<close>/\<open>read\<close> raises), or something \<open>os.path.isfile\<close> rejects.
  A directory argument is not a directory, a directory whose listing raises \<open>OSError\<close>,
  or a listing of named entries.
\<close>

datatype entry = RegularFile "py_exc + bytes" | NotRegular

datatype dir_arg = NotADirectory | Unlistable | Directory "(string \<times> entry) list"

fun isfile :: "entry \<Rightarrow> bool" where
  "isfile (RegularFile _) = True"
| "isfile NotRegular = False"

text \<open>\<open>open(os.path.join(dir, filename), "rb")\<close> followed by the chunked read.\<close>

definition open_read :: "(string \<times> entry) list \<Rightarrow> string \<Rightarrow> py_exc + bytes" where
  "open_read d filename =
     (case map_of d filename of
        None \<Rightarrow> Inl FileNotFoundError
      | Some NotRegular \<Rightarrow> Inl IOError
      | Some (RegularFile c) \<Rightarrow> c)"

text \<open>
  \<open>calculate_md5\<close>: the hash function \<open>hashlib.md5\<close> is the parameter \<open>h\<close>.  The result
  is \<open>Inl e\<close> when the exception \<open>e\<close> leaves the function, \<open>Inr None\<close> when it returns
  \<open>None\<close>, \<open>Inr (Some d)\<close> when it returns the hex digest.  The three handlers are tried
  in the source's order.
\<close>

definition calculate_md5 :: "(bytes \<Rightarrow> digest) \<Rightarrow> (py_exc + bytes) \<Rightarrow> py_exc + digest option" where
  "calculate_md5 h content =
     (case content of
        Inr data \<Rightarrow> Inr (Some (h data))
      | Inl e \<Rightarrow>
          (if e = FileNotFoundError then Inr None
           else if e = IOError then Inr None
           else Inr None))"

record tally =
  matched_files :: "string list"
  mismatched_files :: "string list"
  error_files :: "string list"

record outcome = tally +
  common_files :: "string set"
  files_only_in_dir1 :: "string set"
  files_only_in_dir2 :: "string set"

text \<open>The loop over \<open>sorted(list(common_files))\<close>, step 4 of \<open>compare_directories\<close>.\<close>

fun compare_common ::
  "(bytes \<Rightarrow> digest) \<Rightarrow> (string \<times> entry) list \<Rightarrow> (string \<times> entry) list \<Rightarrow>
   string list \<Rightarrow> tally \<Rightarrow> py_exc + tally" where
  "compare_common h d1 d2 [] t = Inr t"
| "compare_common h d1 d2 (filename # rest) t =
     (case calculate_md5 h (open_read d1 filename) of
        Inl e \<Rightarrow> Inl e
      | Inr md5_1 \<Rightarrow>
     (case calculate_md5 h (open_read d2 filename) of
        Inl e \<Rightarrow> Inl e
      | Inr md5_2 \<Rightarrow>
          compare_common h d1 d2 rest
            (if md5_1 \<noteq> None \<and> md5_2 \<noteq> None then
               (if md5_1 = md5_2
                then t\<lparr>matched_files := matched_files t @ [filename]\<rparr>
                else t\<lparr>mismatched_files := mismatched_files t @ [filename]\<rparr>)
             else t\<lparr>error_files := error_files t @ [filename]\<rparr>)))"

definition listed_files :: "(string \<times> entry) list \<Rightarrow> string set" where
  "listed_files d = set (map fst (filter (\<lambda>p. isfile (snd p)) d))"

fun isdir :: "dir_arg \<Rightarrow> bool" where
  "isdir NotADirectory = False"
| "isdir Unlistable = True"
| "isdir (Directory _) = True"

fun listdir :: "dir_arg \<Rightarrow> py_exc + (string \<times> entry) list" where
  "listdir (Directory d) = Inr d"
| "listdir Unlistable = Inl IOError"
| "listdir NotADirectory = Inl FileNotFoundError"

text \<open>
  \<open>compare_directories\<close>: \<open>Inl (SystemExit 1)\<close> on an invalid directory or a listing that
  raises \<open>OSError\<close>, otherwise the sets and lists it reports in its summary.
\<close>

definition compare_directories :: "(bytes \<Rightarrow> digest) \<Rightarrow> dir_arg \<Rightarrow> dir_arg \<Rightarrow> raised + outcome" where
  "compare_directories h dir1 dir2 =
     (if isdir dir1 = False then Inl (SystemExit 1)
      else if isdir dir2 = False then Inl (SystemExit 1)
      else case listdir dir1 of
        Inl e \<Rightarrow> Inl (SystemExit 1)
      | Inr d1 \<Rightarrow>
     (case listdir dir2 of
        Inl e \<Rightarrow> Inl (SystemExit 1)
      | Inr d2 \<Rightarrow>
          (let files1 = listed_files d1;
               files2 = listed_files d2;
               common = files1 \<inter> files2;
               only1 = files1 - files2;
               only2 = files2 - files1
           in case compare_common h d1 d2 (sorted_list_of_set common)
                     \<lparr>matched_files = [], mismatched_files = [], error_files = []\<rparr> of
                Inl e \<Rightarrow> Inl (Exc e)
              | Inr t \<Rightarrow>
                  Inr \<lparr>matched_files = matched_files t,
                       mismatched_files = mismatched_files t,
                       error_files = error_files t,
                       common_files = common,
                       files_only_in_dir1 = only1,
                       files_only_in_dir2 = only2\<rparr>)))"

text \<open>
  The script run as a process: its exit status, and the report it printed when it got as
  far as the summary.  An uncaught exception ends the interpreter with status 1.
\<close>

definition compare_md5_main :: "(bytes \<Rightarrow> digest) \<Rightarrow> dir_arg \<Rightarrow> dir_arg \<Rightarrow> int \<times> outcome option" where
  "compare_md5_main h dir1 dir2 =
     (case compare_directories h dir1 dir2 of
        Inr r \<Rightarrow> (0, Some r)
      | Inl (SystemExit c) \<Rightarrow> (c, None)
      | Inl _ \<Rightarrow> (1, None))"

section \<open>test\_oasis\_send\_recv\_integration.py: data\<close>

text \<open>
  The child processes the harness supervises, and what the harness knows of each:
  not started, running, ended with an exit status, or ended by a signal the harness sent
  (\<open>Popen.terminate\<close> delivers \<open>SIGTERM\<close>, \<open>Popen.kill\<close> delivers \<open>SIGKILL\<close>).
\<close>

datatype proc = Socat | Extractor | Recv | Send | Comparer

datatype sig = SIGTERM | SIGKILL

datatype pstatus = NotStarted | Running | Exited int | Signalled sig

text \<open>The places where the harness blocks, and so where Ctrl+C can reach it.\<close>

datatype stage =
    PollSleep nat | SocatSettle | Extraction | RecvSettle | Sending | RecvWait | Comparing

text \<open>
  What the script prints (one constructor per message of the source, with the values it
  interpolates), and what it does to the world, in order.
\<close>

datatype msg =
    Found string string | FoundDirect string string
  | ErrNotExecutable string string | ErrNotFound string string
  | UsingProvidedPorts "string option" "string option" | ErrBothPortsNeeded | ErrWindowsNeedsPorts
  | WillUseSocat | ErrDiskImage | CreatingTempDirs
  | StartingSocat | ErrStartingSocat | WaitingForPtys
  | NotReadyYet "string option" "string option" nat | ErrPtyTimeout
  | PtyPorts string string
  | Extracting | ErrExtract int | Extracted nat | NoFilesToTransfer
  | SendingReceiving "string option" "string option"
  | ErrNoFilesToSend | ErrSendFailed int | SendCompleted
  | ErrRecvFailed int | RecvCompleted | ErrSendRecv | TerminatingRecv
  | ComparingFiles | ErrNoPython | PrintedReport | ErrCompareFailed int | Passed
  | ExitingWithCode int | Interrupted | Unexpected
  | CleaningUp | StoppingSocat | ForcingSocat | RemovingTemp | CleanupComplete

datatype event =
    Print msg
  | Spawn proc | ChildExit proc int | Terminate proc | Kill proc
  | Probe nat | Sleep | Rmtree | Mkdirs

text \<open>
  The session root as \<open>shutil.rmtree(..., ignore_errors=True)\<close> sees it: files and
  directories, each with whether removing it succeeds.  \<open>rmtree\<close> empties a directory as
  far as it can, then removes the directory if it is empty and removable; \<open>None\<close> means
  nothing is left.
\<close>

datatype node = File bool | Dir bool "node list"

fun rmtree :: "node \<Rightarrow> node option"
  and rmtree_entries :: "node list \<Rightarrow> node list" where
  "rmtree (File removable) = (if removable then None else Some (File removable))"
| "rmtree (Dir removable entries) =
     (let left = rmtree_entries entries
      in if left = [] \<and> removable then None else Some (Dir removable left))"
| "rmtree_entries [] = []"
| "rmtree_entries (e # es) =
     (case rmtree e of None \<Rightarrow> rmtree_entries es | Some e' \<Rightarrow> e' # rmtree_entries es)"

text \<open>One look at a pty symlink: lines 184 to 190 of the source.\<close>

record pty_obs =
  is_symlink :: bool
  resolve_strict :: "string option"
  is_chr :: bool

text \<open>
  Everything the run reads from outside itself.  \<open>path_str s\<close> is
  \<open>str(pathlib.Path(s))\<close>; \<open>which\<close> is \<open>shutil.which\<close>; \<open>is_file\<close> and \<open>access_x\<close> are
  \<open>Path.is_file\<close> and \<open>os.access(_, os.X_OK)\<close>.  \<open>stale_root\<close> is a directory of the
  session's name left by an earlier run; \<open>session_tree\<close> is the session root with what the
  collaborators write below it, as removal finds it.  \<open>pty_a i\<close>, \<open>pty_b i\<close> are what
  attempt \<open>i\<close> of the readiness loop sees.  \<open>exit_code p\<close> is the status child \<open>p\<close>
  ends with when left alone, \<open>ended_early p\<close> whether it has ended by itself when the
  harness polls it, \<open>exits_in_grace\<close> whether socat ends within the half second
  \<open>cleanup\<close> waits after \<open>SIGTERM\<close>.  \<open>extracted_dir_1\<close> and \<open>extracted_dir_2\<close> are the
  two listings of the extraction directory (name, is a regular file).  \<open>interrupt\<close> is
  the stage at which Ctrl+C arrives, if it does.
\<close>

record env =
  win32 :: bool
  path_str :: "string \<Rightarrow> string"
  which :: "string \<Rightarrow> string option"
  is_file :: "string \<Rightarrow> bool"
  access_x :: "string \<Rightarrow> bool"
  stale_root :: "node option"
  mkdir_fails :: bool
  session_tree :: node
  popen_fails :: "proc \<Rightarrow> bool"
  pty_a :: "nat \<Rightarrow> pty_obs"
  pty_b :: "nat \<Rightarrow> pty_obs"
  exit_code :: "proc \<Rightarrow> int"
  ended_early :: "proc \<Rightarrow> bool"
  exits_in_grace :: bool
  extracted_dir_1 :: "(string \<times> bool) list"
  extracted_dir_2 :: "(string \<times> bool) list"
  compare_report :: "outcome option"
  interrupt :: "stage option"

record args =
  oasis_disk_util_exec :: string
  oasis_send_exec :: string
  oasis_recv_exec :: string
  disk_image :: string
  compare_md5_exec :: string
  com_port_recv_arg :: "string option"
  com_port_send_arg :: "string option"

text \<open>
  The module's globals (lines 26 to 32), the process table, the session root on disk
  (\<open>None\<close>: no such directory) and the trace of prints and actions so far.
\<close>

record world =
  socat_process :: "proc option"
  port_for_recv :: "string option"
  port_for_send :: "string option"
  temp_base_dir_path :: "string option"
  use_socat_globally :: bool
  procs :: "proc \<Rightarrow> pstatus"
  session_root :: "node option"
  trace :: "event list"

record tools =
  socat_cmd :: "string option"
  oasis_disk_util_cmd :: string
  oasis_send_cmd :: string
  oasis_recv_cmd :: string
  compare_md5_cmd :: string

definition TEMP_BASE_DIR_NAME :: string where
  "TEMP_BASE_DIR_NAME = ''test_send_recv_temp''"

definition max_pty_wait_seconds :: nat where
  "max_pty_wait_seconds = 15"

definition initial :: "env \<Rightarrow> world" where
  "initial e =
     \<lparr>socat_process = None, port_for_recv = None, port_for_send = None,
      temp_base_dir_path = None, use_socat_globally = False,
      procs = (\<lambda>p. NotStarted), session_root = stale_root e, trace = []\<rparr>"

section \<open>Process handles\<close>

definition emit :: "event \<Rightarrow> world \<Rightarrow> world" where
  "emit ev w = w\<lparr>trace := trace w @ [ev]\<rparr>"

definition set_status :: "proc \<Rightarrow> pstatus \<Rightarrow> world \<Rightarrow> world" where
  "set_status p st w = w\<lparr>procs := (procs w)(p := st)\<rparr>"

text \<open>\<open>subprocess.Popen(...)\<close> that did not raise.\<close>

definition spawn :: "proc \<Rightarrow> world \<Rightarrow> world" where
  "spawn p w = emit (Spawn p) (set_status p Running w)"

text \<open>\<open>Popen.poll()\<close>: a running child that has ended by itself is reaped.\<close>

definition poll :: "env \<Rightarrow> proc \<Rightarrow> world \<Rightarrow> world" where
  "poll e p w =
     (if procs w p = Running \<and> ended_early e p then set_status p (Exited (exit_code e p)) w else w)"

text \<open>\<open>Popen.terminate()\<close> and \<open>Popen.kill()\<close>: both poll first and signal only a live child.\<close>

definition terminate :: "env \<Rightarrow> proc \<Rightarrow> world \<Rightarrow> world" where
  "terminate e p w =
     (let w1 = emit (Terminate p) (poll e p w)
      in if procs w1 p = Running then set_status p (Signalled SIGTERM) w1 else w1)"

definition kill :: "env \<Rightarrow> proc \<Rightarrow> world \<Rightarrow> world" where
  "kill e p w =
     (let w1 = emit (Kill p) (poll e p w)
      in if procs w1 p = Running \<or> procs w1 p = Signalled SIGTERM
         then set_status p (Signalled SIGKILL) w1 else w1)"

text \<open>\<open>if proc.poll() is None: proc.terminate()\<close>.\<close>

definition terminate_if_running :: "env \<Rightarrow> proc \<Rightarrow> world \<Rightarrow> world" where
  "terminate_if_running e p w =
     (let w1 = poll e p w in if procs w1 p = Running then terminate e p w1 else w1)"

text \<open>\<open>Popen.wait()\<close> with no timeout: the return code, and the child reaped.\<close>

definition wait :: "env \<Rightarrow> proc \<Rightarrow> world \<Rightarrow> int \<times> world" where
  "wait e p w =
     (case procs w p of
        Running \<Rightarrow> (exit_code e p, emit (ChildExit p (exit_code e p)) (set_status p (Exited (exit_code e p)) w))
      | Exited rc \<Rightarrow> (rc, w)
      | Signalled SIGTERM \<Rightarrow> (- 15, w)
      | Signalled SIGKILL \<Rightarrow> (- 9, w)
      | NotStarted \<Rightarrow> (0, w))"

text \<open>Sequencing: what is raised ends the sequence.\<close>

definition andthen ::
  "(raised + 'a) \<times> world \<Rightarrow> ('a \<Rightarrow> world \<Rightarrow> (raised + 'b) \<times> world) \<Rightarrow> (raised + 'b) \<times> world" where
  "andthen m f = (case m of (Inl r, w) \<Rightarrow> (Inl r, w) | (Inr x, w) \<Rightarrow> f x w)"

section \<open>test\_oasis\_send\_recv\_integration.py: functions\<close>

text \<open>
  \<open>cleanup\<close> (lines 35 to 55).  \<open>wait(timeout=0.5)\<close> raises \<open>TimeoutExpired\<close> exactly when
  the child was sent \<open>SIGTERM\<close> and does not end within the grace period.
\<close>

definition rmtree_ignore_errors :: "world \<Rightarrow> world" where
  "rmtree_ignore_errors w =
     emit Rmtree (w\<lparr>session_root := (case session_root w of None \<Rightarrow> None | Some n \<Rightarrow> rmtree n)\<rparr>)"

definition cleanup :: "env \<Rightarrow> world \<Rightarrow> world" where
  "cleanup e w0 =
     (let w1 = emit (Print CleaningUp) w0;
          w2 = (case socat_process w1 of
                  None \<Rightarrow> w1
                | Some p \<Rightarrow>
                    if use_socat_globally w1 then
                      (let wa = terminate e p (emit (Print StoppingSocat) w1);
                           wb = (if procs wa p = Signalled SIGTERM \<and> exits_in_grace e = False
                                 then kill e p (emit (Print ForcingSocat) wa) else wa)
                       in wb\<lparr>socat_process := None\<rparr>)
                    else w1);
          w3 = (if temp_base_dir_path w2 = None then w2
                else if session_root w2 = None then w2
                else rmtree_ignore_errors (emit (Print RemovingTemp) w2))
      in emit (Print CleanupComplete) w3)"

text \<open>\<open>check_command\<close> (lines 58 to 86); \<open>sys.exit(1)\<close> is \<open>Inl (SystemExit 1)\<close>.\<close>

definition check_command :: "env \<Rightarrow> string \<Rightarrow> string \<Rightarrow> world \<Rightarrow> (raised + string) \<times> world" where
  "check_command e cmd_path_str cmd_name w =
     (let cmd_path = path_str e cmd_path_str
      in case which e cmd_path of
           Some resolved_path_str \<Rightarrow>
             (let resolved_path = path_str e resolved_path_str
              in if is_file e resolved_path \<and> access_x e resolved_path
                 then (Inr resolved_path, emit (Print (Found cmd_name resolved_path)) w)
                 else (Inl (SystemExit 1), emit (Print (ErrNotExecutable cmd_name resolved_path)) w))
         | None \<Rightarrow>
             if is_file e cmd_path \<and> access_x e cmd_path
             then (Inr cmd_path, emit (Print (FoundDirect cmd_name cmd_path)) w)
             else (Inl (SystemExit 1), emit (Print (ErrNotFound cmd_name cmd_path_str)) w))"

text \<open>Python's truth value of an optional string argument.\<close>

definition truthy :: "string option \<Rightarrow> bool" where
  "truthy s = (case s of None \<Rightarrow> False | Some v \<Rightarrow> v \<noteq> [])"

text \<open>Step 0 of \<open>main_logic\<close>, lines 104 to 124.\<close>

definition port_strategy :: "env \<Rightarrow> args \<Rightarrow> world \<Rightarrow> (raised + unit) \<times> world" where
  "port_strategy e a w0 =
     (let w = w0\<lparr>use_socat_globally := False\<rparr>
      in if truthy (com_port_recv_arg a) \<and> truthy (com_port_send_arg a) then
           (Inr (), emit (Print (UsingProvidedPorts (com_port_recv_arg a) (com_port_send_arg a)))
                      (w\<lparr>port_for_recv := com_port_recv_arg a,
                         port_for_send := com_port_send_arg a\<rparr>))
         else if truthy (com_port_recv_arg a) \<or> truthy (com_port_send_arg a) then
           (Inl (SystemExit 1), emit (Print ErrBothPortsNeeded) w)
         else if win32 e then (Inl (SystemExit 1), emit (Print ErrWindowsNeedsPorts) w)
         else (Inr (), emit (Print WillUseSocat) (w\<lparr>use_socat_globally := True\<rparr>)))"

text \<open>Step 1, the body of the \<open>try\<close> of lines 128 to 136.\<close>

definition tool_checks :: "env \<Rightarrow> args \<Rightarrow> world \<Rightarrow> (raised + tools) \<times> world" where
  "tool_checks e a w =
     andthen (if use_socat_globally w
              then andthen (check_command e ''socat'' ''socat'' w) (\<lambda>c w. (Inr (Some c), w))
              else (Inr None, w)) (\<lambda>socat w.
     andthen (check_command e (oasis_disk_util_exec a) ''oasis_disk_util'' w) (\<lambda>disk_util w.
     andthen (check_command e (oasis_send_exec a) ''oasis_send'' w) (\<lambda>send w.
     andthen (check_command e (oasis_recv_exec a) ''oasis_recv'' w) (\<lambda>recv w.
     andthen (check_command e (compare_md5_exec a) ''compare_md5.py'' w) (\<lambda>compare w.
       (Inr \<lparr>socat_cmd = socat, oasis_disk_util_cmd = disk_util, oasis_send_cmd = send,
            oasis_recv_cmd = recv, compare_md5_cmd = compare\<rparr>, w))))))"

definition check_disk_image :: "env \<Rightarrow> args \<Rightarrow> world \<Rightarrow> (raised + unit) \<times> world" where
  "check_disk_image e a w =
     (if is_file e (path_str e (disk_image a)) then (Inr (), w)
      else (Inl (SystemExit 1), emit (Print ErrDiskImage) w))"

text \<open>
  Step 2, lines 146 to 157: the global is set, a stale directory is removed, the two
  directories are made; a \<open>mkdir\<close> that fails raises \<open>OSError\<close>.
\<close>

definition setup_dirs :: "env \<Rightarrow> world \<Rightarrow> (raised + unit) \<times> world" where
  "setup_dirs e w =
     (let w1 = emit (Print CreatingTempDirs) (w\<lparr>temp_base_dir_path := Some TEMP_BASE_DIR_NAME\<rparr>);
          w2 = (if session_root w1 = None then w1 else rmtree_ignore_errors w1)
      in if mkdir_fails e then (Inl (Exc IOError), w2)
         else (Inr (), emit Mkdirs (w2\<lparr>session_root := Some (session_tree e)\<rparr>)))"

text \<open>One look at a symlink: the resolved device path, or \<open>None\<close>.\<close>

definition observe :: "pty_obs \<Rightarrow> string option" where
  "observe ob =
     (if is_symlink ob then
        (case resolve_strict ob of
           None \<Rightarrow> None
         | Some p \<Rightarrow> if is_chr ob then Some p else None)
      else None)"

text \<open>\<open>if local_pty_a_path_socat and local_pty_b_path_socat\<close>: both paths are there.\<close>

definition both_resolved :: "string option \<Rightarrow> string option \<Rightarrow> (string \<times> string) option" where
  "both_resolved a b =
     (case a of None \<Rightarrow> None | Some pa \<Rightarrow> (case b of None \<Rightarrow> None | Some pb \<Rightarrow> Some (pa, pb)))"

text \<open>
  The readiness loop, lines 183 to 213: attempt \<open>i\<close> with the paths resolved so far.  The
  \<open>else\<close> of the \<open>for\<close> is the branch taken when the attempts are used up.
\<close>

function poll_ptys ::
  "env \<Rightarrow> nat \<Rightarrow> string option \<Rightarrow> string option \<Rightarrow> world \<Rightarrow> (raised + string \<times> string) \<times> world" where
  "poll_ptys e i a b w =
     (if i < max_pty_wait_seconds then
        (let w1 = emit (Probe i) w;
             a' = (if a = None then observe (pty_a e i) else a);
             b' = (if b = None then observe (pty_b e i) else b)
         in case both_resolved a' b' of
              Some paths \<Rightarrow> (Inr paths, w1)
            | None \<Rightarrow>
               (let w2 = emit (Print (NotReadyYet a' b' (i + 1))) w1
                in if interrupt e = Some (PollSleep i) then (Inl KeyboardInterrupt, w2)
                   else poll_ptys e (i + 1) a' b' (emit Sleep w2)))
      else
        (let w1 = emit (Print ErrPtyTimeout) w;
             w2 = (case socat_process w1 of
                     None \<Rightarrow> w1
                   | Some p \<Rightarrow> (let wp = poll e p w1
                                in if procs wp p = Running then kill e p wp else wp))
         in (Inl (SystemExit 1), w2)))"
  by pat_completeness auto
termination
  by (relation "measure (\<lambda>(e, i, a, b, w). max_pty_wait_seconds - i)") auto

text \<open>Step 3, lines 159 to 219.\<close>

definition socat_setup :: "env \<Rightarrow> world \<Rightarrow> (raised + unit) \<times> world" where
  "socat_setup e w =
     (if use_socat_globally w then
        (let w1 = emit (Print StartingSocat) w
         in if popen_fails e Socat then (Inl (SystemExit 1), emit (Print ErrStartingSocat) w1)
            else
              andthen (poll_ptys e 0 None None
                         (emit (Print WaitingForPtys) ((spawn Socat w1)\<lparr>socat_process := Some Socat\<rparr>)))
                (\<lambda>(pa, pb) w3.
                   (let w4 = emit (Print (PtyPorts pa pb))
                               (w3\<lparr>port_for_recv := Some pa, port_for_send := Some pb\<rparr>)
                    in if interrupt e = Some SocatSettle then (Inl KeyboardInterrupt, w4)
                       else (Inr (), emit Sleep w4))))
      else (Inr (), w))"

text \<open>
  \<open>subprocess.run\<close> of a collaborator at the blocking point \<open>st\<close>: the child is started
  and awaited; Ctrl+C while it runs kills it and is raised again (what \<open>subprocess.run\<close>
  does on any exception); a \<open>Popen\<close> that fails raises.
\<close>

definition run_child :: "env \<Rightarrow> proc \<Rightarrow> stage \<Rightarrow> world \<Rightarrow> (raised + int) \<times> world" where
  "run_child e p st w =
     (if popen_fails e p then (Inl (Exc OtherException), w)
      else (let w1 = spawn p w
            in if interrupt e = Some st then (Inl KeyboardInterrupt, kill e p w1)
               else (case wait e p w1 of (rc, w2) \<Rightarrow> (Inr rc, w2))))"

definition regular_files :: "(string \<times> bool) list \<Rightarrow> string list" where
  "regular_files listing = map fst (filter snd listing)"

text \<open>Step 4, lines 221 to 236.\<close>

definition extraction :: "env \<Rightarrow> world \<Rightarrow> (raised + unit) \<times> world" where
  "extraction e w =
     andthen (run_child e Extractor Extraction (emit (Print Extracting) w)) (\<lambda>rc w.
       if rc \<noteq> 0 then (Inl (SystemExit 1), emit (Print (ErrExtract rc)) w)
       else
         (let num_extracted = length (regular_files (extracted_dir_1 e));
              w1 = emit (Print (Extracted num_extracted)) w
          in if num_extracted = 0 then (Inl (SystemExit 0), emit (Print NoFilesToTransfer) w1)
             else (Inr (), w1)))"

text \<open>Step 5: the body of the \<open>try\<close>, lines 245 to 273.\<close>

definition send_recv_body :: "env \<Rightarrow> world \<Rightarrow> (raised + unit) \<times> world" where
  "send_recv_body e w =
     (if popen_fails e Recv then (Inl (Exc OtherException), w)
      else
        (let w1 = spawn Recv w
         in if interrupt e = Some RecvSettle then (Inl KeyboardInterrupt, w1)
            else
              (let w2 = emit Sleep w1
               in if regular_files (extracted_dir_2 e) = [] then
                    (Inl (SystemExit 1), terminate_if_running e Recv (emit (Print ErrNoFilesToSend) w2))
                  else
                    andthen (run_child e Send Sending w2) (\<lambda>returncode w3.
                      if returncode \<noteq> 0 then
                        (Inl (SystemExit 1),
                         terminate_if_running e Recv (emit (Print (ErrSendFailed returncode)) w3))
                      else
                        (let w4 = emit (Print SendCompleted) w3
                         in if interrupt e = Some RecvWait then (Inl KeyboardInterrupt, w4)
                            else (case wait e Recv w4 of
                                    (rc, w5) \<Rightarrow>
                                      if rc \<noteq> 0
                                      then (Inl (SystemExit 1), emit (Print (ErrRecvFailed rc)) w5)
                                      else (Inr (), emit (Print RecvCompleted) w5)))))))"

text \<open>
  Step 5 with its handler, lines 275 to 280: \<open>except Exception\<close> catches neither
  \<open>SystemExit\<close> nor \<open>KeyboardInterrupt\<close>.  \<open>recv_process_obj\<close> is set once the receiver
  has been started.
\<close>

definition send_and_receive :: "env \<Rightarrow> world \<Rightarrow> (raised + unit) \<times> world" where
  "send_and_receive e w =
     (case send_recv_body e (emit (Print (SendingReceiving (port_for_send w) (port_for_recv w))) w) of
        (Inl (Exc x), w1) \<Rightarrow>
          (let w2 = emit (Print ErrSendRecv) w1;
               w3 = (if procs w2 Recv = NotStarted then w2
                     else (let wp = poll e Recv w2
                           in if procs wp Recv = Running
                              then terminate e Recv (emit (Print TerminatingRecv) wp) else wp))
           in (Inl (SystemExit 1), w3))
      | r \<Rightarrow> r)"

definition endswith_py :: "string \<Rightarrow> bool" where
  "endswith_py s = (3 \<le> length s \<and> drop (length s - 3) s = ''.py'')"

text \<open>Step 6, lines 285 to 311.  The captured report is printed; nothing reads it.\<close>

definition comparison :: "env \<Rightarrow> args \<Rightarrow> world \<Rightarrow> (raised + unit) \<times> world" where
  "comparison e a w =
     (let w1 = emit (Print ComparingFiles) w
      in if endswith_py (compare_md5_exec a) \<and> which e ''python3'' = None \<and> which e ''python'' = None
         then (Inl (SystemExit 1), emit (Print ErrNoPython) w1)
         else
           andthen (run_child e Comparer Comparing w1) (\<lambda>rc w2.
             if rc \<noteq> 0 then (Inl (SystemExit 1), emit (Print (ErrCompareFailed rc)) w2)
             else (Inl (SystemExit 0), emit (Print Passed) (emit (Print PrintedReport) w2))))"

text \<open>
  \<open>main_logic\<close> (lines 88 to 311).  A \<open>SystemExit\<close> from the tool checks is caught and
  the function returns (\<open>Inr ()\<close>); every other exit is \<open>sys.exit\<close>.
\<close>

definition main_logic :: "env \<Rightarrow> args \<Rightarrow> world \<Rightarrow> (raised + unit) \<times> world" where
  "main_logic e a w =
     andthen (port_strategy e a w) (\<lambda>_ w.
       case tool_checks e a w of
         (Inl (SystemExit c), w) \<Rightarrow> (Inr (), w)
       | (Inl r, w) \<Rightarrow> (Inl r, w)
       | (Inr t, w) \<Rightarrow>
           andthen (check_disk_image e a w) (\<lambda>_ w.
           andthen (setup_dirs e w) (\<lambda>_ w.
           andthen (socat_setup e w) (\<lambda>_ w.
           andthen (extraction e w) (\<lambda>_ w.
           andthen (send_and_receive e w) (\<lambda>_ w.
           comparison e a w))))))"

text \<open>
  The \<open>__main__\<close> block, lines 328 to 366.  \<open>finally_block\<close> is the \<open>finally\<close> clause;
  \<open>after_main\<close> is what the handler that catches the outcome of \<open>main_logic\<close> does to
  the world, followed by the \<open>finally\<close> clause; \<open>exit_status\<close> is the status the process
  ends with (\<open>sys.exit(e.code)\<close>, \<open>sys.exit(1)\<close>, or 0 when \<open>main_logic\<close> returned).
\<close>

definition finally_block :: "env \<Rightarrow> world \<Rightarrow> world" where
  "finally_block e w =
     (if temp_base_dir_path w = None then w
      else if session_root w = None then w
      else cleanup e w)"

definition after_main :: "env \<Rightarrow> raised + unit \<Rightarrow> world \<Rightarrow> world" where
  "after_main e r w =
     (case r of
        Inr u \<Rightarrow> finally_block e w
      | Inl (SystemExit c) \<Rightarrow>
          (let w1 = (if c \<noteq> 0 then emit (Print (ExitingWithCode c)) w else w);
               w2 = (if temp_base_dir_path w1 = None then w1 else cleanup e w1)
           in finally_block e w2)
      | Inl KeyboardInterrupt \<Rightarrow> finally_block e (cleanup e (emit (Print Interrupted) w))
      | Inl (Exc x) \<Rightarrow> finally_block e (cleanup e (emit (Print Unexpected) w)))"

definition exit_status :: "raised + unit \<Rightarrow> int" where
  "exit_status r = (case r of Inr u \<Rightarrow> 0 | Inl (SystemExit c) \<Rightarrow> c | Inl _ \<Rightarrow> 1)"

text \<open>The script as a process: its exit status and the world it leaves.\<close>

definition script :: "env \<Rightarrow> args \<Rightarrow> int \<times> world" where
  "script e a =
     (case main_logic e a (initial e) of (r, w) \<Rightarrow> (exit_status r, after_main e r w))"

section \<open>Auxiliary notions for the proofs\<close>

text \<open>
  What \<open>calculate_md5\<close> returns when nothing is raised, the verdict of one iteration of
  the comparison loop, and a file for which one of the two hashes is \<open>None\<close>.
\<close>

definition digest_of :: "(bytes \<Rightarrow> digest) \<Rightarrow> (py_exc + bytes) \<Rightarrow> digest option" where
  "digest_of h c = (case c of Inl ex \<Rightarrow> None | Inr data \<Rightarrow> Some (h data))"

definition classify ::
  "(bytes \<Rightarrow> digest) \<Rightarrow> (string \<times> entry) list \<Rightarrow> (string \<times> entry) list \<Rightarrow> string \<Rightarrow> tally \<Rightarrow> tally" where
  "classify h d1 d2 f t =
     (case (digest_of h (open_read d1 f), digest_of h (open_read d2 f)) of
        (Some x, Some y) \<Rightarrow>
          if x = y then t\<lparr>matched_files := matched_files t @ [f]\<rparr>
          else t\<lparr>mismatched_files := mismatched_files t @ [f]\<rparr>
      | _ \<Rightarrow> t\<lparr>error_files := error_files t @ [f]\<rparr>)"

definition unreadable ::
  "(bytes \<Rightarrow> digest) \<Rightarrow> (string \<times> entry) list \<Rightarrow> (string \<times> entry) list \<Rightarrow> string \<Rightarrow> bool" where
  "unreadable h d1 d2 f =
     (calculate_md5 h (open_read d1 f) = Inr None \<or> calculate_md5 h (open_read d2 f) = Inr None)"

text \<open>
  An endpoint after \<open>n\<close> attempts of the readiness loop: the first device path an attempt
  resolved, kept from then on.  \<open>probes\<close> counts the attempts a trace records.
\<close>

fun latched :: "(nat \<Rightarrow> pty_obs) \<Rightarrow> nat \<Rightarrow> string option" where
  "latched f 0 = None"
| "latched f (Suc n) = (case latched f n of None \<Rightarrow> observe (f n) | Some p \<Rightarrow> Some p)"

fun is_probe :: "event \<Rightarrow> bool" where
  "is_probe (Probe i) = True"
| "is_probe _ = False"

definition probes :: "event list \<Rightarrow> nat" where
  "probes tr = length (filter is_probe tr)"

text \<open>What a second call of \<open>cleanup\<close> could change: the handle, the processes, the tree.\<close>

definition observable :: "world \<Rightarrow> proc option \<times> (proc \<Rightarrow> pstatus) \<times> node option" where
  "observable w = (socat_process w, procs w, session_root w)"

text \<open>Everything about a world but its trace and its processes.\<close>

definition globals :: "world \<Rightarrow> proc option \<times> string option \<times> string option \<times> string option \<times> bool \<times> node option" where
  "globals w = (socat_process w, port_for_recv w, port_for_send w, temp_base_dir_path w,
                use_socat_globally w, session_root w)"

definition poll_event :: "event \<Rightarrow> bool" where
  "poll_event ev = (case ev of Probe i \<Rightarrow> True | Sleep \<Rightarrow> True | Kill p \<Rightarrow> p = Socat
      | Print (NotReadyYet a b n) \<Rightarrow> True | Print ErrPtyTimeout \<Rightarrow> True | _ \<Rightarrow> False)"

text \<open>The step of the script that prints a message or performs an action.\<close>

fun printed_by :: "msg \<Rightarrow> nat" where
  "printed_by (UsingProvidedPorts r s) = 0"
| "printed_by ErrBothPortsNeeded = 0"
| "printed_by ErrWindowsNeedsPorts = 0"
| "printed_by WillUseSocat = 0"
| "printed_by (Found n p) = 1"
| "printed_by (FoundDirect n p) = 1"
| "printed_by (ErrNotExecutable n p) = 1"
| "printed_by (ErrNotFound n p) = 1"
| "printed_by ErrDiskImage = 1"
| "printed_by CreatingTempDirs = 2"
| "printed_by StartingSocat = 3"
| "printed_by ErrStartingSocat = 3"
| "printed_by WaitingForPtys = 3"
| "printed_by (NotReadyYet a b n) = 3"
| "printed_by ErrPtyTimeout = 3"
| "printed_by (PtyPorts a b) = 3"
| "printed_by Extracting = 4"
| "printed_by (ErrExtract rc) = 4"
| "printed_by (Extracted n) = 4"
| "printed_by NoFilesToTransfer = 4"
| "printed_by (SendingReceiving s r) = 5"
| "printed_by ErrNoFilesToSend = 5"
| "printed_by (ErrSendFailed rc) = 5"
| "printed_by SendCompleted = 5"
| "printed_by (ErrRecvFailed rc) = 5"
| "printed_by RecvCompleted = 5"
| "printed_by ErrSendRecv = 5"
| "printed_by TerminatingRecv = 5"
| "printed_by ComparingFiles = 6"
| "printed_by ErrNoPython = 6"
| "printed_by PrintedReport = 6"
| "printed_by (ErrCompareFailed rc) = 6"
| "printed_by Passed = 6"
| "printed_by (ExitingWithCode c) = 7"
| "printed_by Interrupted = 7"
| "printed_by Unexpected = 7"
| "printed_by CleaningUp = 7"
| "printed_by StoppingSocat = 7"
| "printed_by ForcingSocat = 7"
| "printed_by RemovingTemp = 7"
| "printed_by CleanupComplete = 7"

fun started_by :: "proc \<Rightarrow> nat" where
  "started_by Socat = 3"
| "started_by Extractor = 4"
| "started_by Recv = 5"
| "started_by Send = 5"
| "started_by Comparer = 6"

fun step_event :: "nat \<Rightarrow> event \<Rightarrow> bool" where
  "step_event k (Print m) = (printed_by m = k)"
| "step_event k (Spawn p) = (started_by p = k)"
| "step_event k (ChildExit p rc) = (started_by p = k)"
| "step_event k (Terminate p) = ((p = Recv \<and> k = 5) \<or> (p = Socat \<and> k = 7))"
| "step_event k (Kill p) = (started_by p = k \<or> (p = Socat \<and> k = 7))"
| "step_event k (Probe i) = (k = 3)"
| "step_event k Sleep = (k = 3 \<or> k = 5)"
| "step_event k Rmtree = (k = 2 \<or> k = 7)"
| "step_event k Mkdirs = (k = 2)"

text \<open>\<open>grows K w w'\<close>: from \<open>w\<close> to \<open>w'\<close> the trace grew by events of the steps in \<open>K\<close>.\<close>

definition grows :: "nat set \<Rightarrow> world \<Rightarrow> world \<Rightarrow> bool" where
  "grows K w w' = (\<exists>evs. trace w' = trace w @ evs \<and> list_all (\<lambda>ev. \<exists>k\<in>K. step_event k ev) evs)"

text \<open>A tool check has failed and said so.\<close>

definition tool_err :: "world \<Rightarrow> bool" where
  "tool_err w = (\<exists>n p. Print (ErrNotExecutable n p) \<in> set (trace w) \<or> Print (ErrNotFound n p) \<in> set (trace w))"

definition tool_step :: "world \<Rightarrow> (raised + 'a) \<times> world \<Rightarrow> bool" where
  "tool_step w m =
     (grows {1} w (snd m) \<and> globals (snd m) = globals w \<and> procs (snd m) = procs w \<and>
      (case fst m of Inl x \<Rightarrow> x = SystemExit 1 \<and> tool_err (snd m)
       | Inr c \<Rightarrow> tool_err (snd m) = tool_err w))"

text \<open>
  The receiver is not left running: the harness has called \<open>terminate()\<close> on it, or it
  had ended by itself when the harness polled it.
\<close>

definition recv_stopped :: "env \<Rightarrow> world \<Rightarrow> bool" where
  "recv_stopped e w =
     ((procs w Recv = Signalled SIGTERM \<and> Terminate Recv \<in> set (trace w)) \<or>
      (procs w Recv = Exited (exit_code e Recv) \<and> ended_early e Recv))"

text \<open>What step 5 guarantees about the sender's exit and the receiver.\<close>

definition xfer_ok :: "env \<Rightarrow> world \<Rightarrow> (raised + unit) \<times> world \<Rightarrow> bool" where
  "xfer_ok e w m =
     (grows {5} w (snd m) \<and> globals (snd m) = globals w \<and>
      (\<forall>q. q \<noteq> Recv \<and> q \<noteq> Send \<longrightarrow> procs (snd m) q = procs w q) \<and>
      (procs w Send = Running \<or> procs (snd m) Send \<noteq> Running) \<and>
      (\<forall>rc. ChildExit Send rc \<in> set (trace (snd m)) - set (trace w) \<longrightarrow>
           rc = exit_code e Send \<and>
           (rc \<noteq> 0 \<longrightarrow> fst m = Inl (SystemExit 1) \<and> Print (ErrSendFailed rc) \<in> set (trace (snd m)) \<and>
              recv_stopped e (snd m))) \<and>
      (\<forall>x y. Print (SendingReceiving x y) \<in> set (trace (snd m)) - set (trace w) \<longrightarrow>
           x = port_for_send w \<and> y = port_for_recv w) \<and>
      (\<forall>x. fst m = Inl (Exc x) \<longrightarrow> (\<forall>rc. ChildExit Send rc \<notin> set (trace (snd m)) - set (trace w))) \<and>
      (fst m = Inl KeyboardInterrupt \<longrightarrow> interrupt e \<noteq> None))"

text \<open>Before the loopback provider may be started, and from then on.\<close>

definition idle :: "world \<Rightarrow> bool" where
  "idle w = (socat_process w = None \<and> procs w = (\<lambda>p. NotStarted) \<and> Spawn Socat \<notin> set (trace w))"

definition run_inv :: "world \<Rightarrow> bool" where
  "run_inv w =
     (((socat_process w = None \<and> Spawn Socat \<notin> set (trace w) \<and> procs w Socat = NotStarted) \<or>
       (socat_process w = Some Socat \<and> use_socat_globally w \<and> Spawn Socat \<in> set (trace w) \<and>
        procs w Socat \<noteq> NotStarted \<and> temp_base_dir_path w \<noteq> None)) \<and>
      procs w Extractor \<noteq> Running \<and> procs w Send \<noteq> Running \<and> procs w Comparer \<noteq> Running)"

section \<open>Concrete inputs\<close>

text \<open>
  Two directories: one file equal on both sides, one that differs, one that cannot be
  read on the second side, a subdirectory, and a file on each side only.
\<close>

definition listing_src :: "(string \<times> entry) list" where
  "listing_src =
     [(''A.TXT'', RegularFile (Inr ''0123456789'')), (''B.BIN'', RegularFile (Inr [])),
      (''C.DAT'', RegularFile (Inr ''xyz'')), (''sub'', NotRegular),
      (''ONLY1'', RegularFile (Inr ''q''))]"

definition listing_dst :: "(string \<times> entry) list" where
  "listing_dst =
     [(''B.BIN'', RegularFile (Inl IOError)), (''A.TXT'', RegularFile (Inr ''0123456789'')),
      (''C.DAT'', RegularFile (Inr ''xyZ'')), (''ONLY2'', RegularFile (Inr ''q''))]"

definition report_src_dst :: outcome where
  "report_src_dst =
     \<lparr>matched_files = [''A.TXT''], mismatched_files = [''C.DAT''], error_files = [''B.BIN''],
      common_files = {''A.TXT'', ''B.BIN'', ''C.DAT''},
      files_only_in_dir1 = {''ONLY1''}, files_only_in_dir2 = {''ONLY2''}\<rparr>"

text \<open>
  A run where everything is in place and goes well: the tools are found as direct paths,
  the transfer and the comparison end with status 0, the ptys are there at the first look.
\<close>

definition env_ok :: env where
  "env_ok =
     \<lparr>win32 = False, path_str = (\<lambda>s. s), which = (\<lambda>s. None), is_file = (\<lambda>s. True),
      access_x = (\<lambda>s. True), stale_root = None, mkdir_fails = False,
      session_tree = Dir True [Dir True [File True], Dir True [File True]],
      popen_fails = (\<lambda>p. False),
      pty_a = (\<lambda>i. \<lparr>is_symlink = True, resolve_strict = Some ''/dev/pts/3'', is_chr = True\<rparr>),
      pty_b = (\<lambda>i. \<lparr>is_symlink = True, resolve_strict = Some ''/dev/pts/4'', is_chr = True\<rparr>),
      exit_code = (\<lambda>p. 0), ended_early = (\<lambda>p. False), exits_in_grace = True,
      extracted_dir_1 = [(''A.TXT'', True), (''B.BIN'', True)],
      extracted_dir_2 = [(''A.TXT'', True), (''B.BIN'', True)],
      compare_report = None, interrupt = None\<rparr>"

definition args_socat :: args where
  "args_socat =
     \<lparr>oasis_disk_util_exec = ''oasis_disk_util'', oasis_send_exec = ''oasis_send'',
      oasis_recv_exec = ''oasis_recv'', disk_image = ''disk.img'',
      compare_md5_exec = ''compare_md5.py'',
      com_port_recv_arg = None, com_port_send_arg = None\<rparr>"

definition args_ports :: args where
  "args_ports = args_socat\<lparr>com_port_recv_arg := Some ''PORT1'', com_port_send_arg := Some ''PORT2''\<rparr>"

section \<open>compare\_md5.py: the comparison outcome\<close>

lemma calculate_md5_returns: "\<exists>x. calculate_md5 h c = Inr x"
  by (cases c) (simp_all add: calculate_md5_def)

lemma calculate_md5_error: "calculate_md5 h (Inl ex) = Inr None"
  by (simp add: calculate_md5_def)

lemma calculate_md5_None_iff: "calculate_md5 h c = Inr None \<longleftrightarrow> (\<exists>ex. c = Inl ex)"
  by (cases c) (simp_all add: calculate_md5_def)

lemma compare_common_total: "\<exists>t'. compare_common h d1 d2 xs t = Inr t'"
proof (induction xs arbitrary: t)
  case Nil
  show ?case by simp
next
  case (Cons f fs)
  obtain m1 where m1: "calculate_md5 h (open_read d1 f) = Inr m1"
    using calculate_md5_returns by blast
  obtain m2 where m2: "calculate_md5 h (open_read d2 f) = Inr m2"
    using calculate_md5_returns by blast
  show ?case using Cons.IH by (simp add: m1 m2)
qed

lemma calculate_md5_digest_of: "calculate_md5 h c = Inr (digest_of h c)"
  by (cases c) (simp_all add: calculate_md5_def digest_of_def)

lemma compare_common_Cons:
  "compare_common h d1 d2 (f # fs) t = compare_common h d1 d2 fs (classify h d1 d2 f t)"
  by (cases "digest_of h (open_read d1 f)"; cases "digest_of h (open_read d2 f)")
     (simp_all add: calculate_md5_digest_of classify_def)

lemma classify_lengths:
  "length (matched_files (classify h d1 d2 f t)) + length (mismatched_files (classify h d1 d2 f t))
     + length (error_files (classify h d1 d2 f t))
   = Suc (length (matched_files t) + length (mismatched_files t) + length (error_files t))"
  by (simp add: classify_def split: option.splits)

lemma classify_unreadable:
  "unreadable h d1 d2 f \<Longrightarrow>
     classify h d1 d2 f t = t\<lparr>error_files := error_files t @ [f]\<rparr>"
  by (auto simp: classify_def unreadable_def calculate_md5_digest_of split: option.splits)

lemma classify_readable:
  "\<not> unreadable h d1 d2 f \<Longrightarrow>
     error_files (classify h d1 d2 f t) = error_files t \<and>
     set (matched_files (classify h d1 d2 f t)) \<union> set (mismatched_files (classify h d1 d2 f t))
       = insert f (set (matched_files t) \<union> set (mismatched_files t))"
  by (auto simp: classify_def unreadable_def calculate_md5_digest_of split: option.splits)

lemma compare_common_lengths:
  "compare_common h d1 d2 xs t = Inr t' \<Longrightarrow>
   length (matched_files t') + length (mismatched_files t') + length (error_files t')
     = length (matched_files t) + length (mismatched_files t) + length (error_files t) + length xs"
proof (induction xs arbitrary: t)
  case Nil
  then show ?case by simp
next
  case (Cons f fs)
  from Cons.prems have "compare_common h d1 d2 fs (classify h d1 d2 f t) = Inr t'"
    by (simp only: compare_common_Cons)
  from Cons.IH [OF this] show ?case
    by (simp add: classify_lengths)
qed

lemma compare_common_errors:
  "compare_common h d1 d2 xs t = Inr t' \<Longrightarrow>
   set (error_files t') = set (error_files t) \<union> {f \<in> set xs. unreadable h d1 d2 f} \<and>
   set (matched_files t') \<union> set (mismatched_files t')
     = set (matched_files t) \<union> set (mismatched_files t) \<union> {f \<in> set xs. \<not> unreadable h d1 d2 f}"
proof (induction xs arbitrary: t)
  case Nil
  then show ?case by simp
next
  case (Cons f fs)
  from Cons.prems have step: "compare_common h d1 d2 fs (classify h d1 d2 f t) = Inr t'"
    by (simp only: compare_common_Cons)
  show ?case
  proof (cases "unreadable h d1 d2 f")
    case True
    from Cons.IH [OF step] True show ?thesis
      by (simp add: classify_unreadable) blast
  next
    case False
    from Cons.IH [OF step] False classify_readable [OF False, of t] show ?thesis
      by simp blast
  qed
qed

lemma finite_listed_files: "finite (listed_files d)"
  by (simp add: listed_files_def)

lemma compare_directories_Inr:
  assumes "compare_directories h dir1 dir2 = Inr r"
  obtains d1 d2 t where "dir1 = Directory d1" "dir2 = Directory d2"
    "common_files r = listed_files d1 \<inter> listed_files d2"
    "files_only_in_dir1 r = listed_files d1 - listed_files d2"
    "files_only_in_dir2 r = listed_files d2 - listed_files d1"
    "compare_common h d1 d2 (sorted_list_of_set (listed_files d1 \<inter> listed_files d2))
        \<lparr>matched_files = [], mismatched_files = [], error_files = []\<rparr> = Inr t"
    "matched_files r = matched_files t" "mismatched_files r = mismatched_files t"
    "error_files r = error_files t"
proof (cases dir1)
  case NotADirectory
  with assms show ?thesis by (simp add: compare_directories_def)
next
  case Unlistable
  with assms show ?thesis by (simp add: compare_directories_def split: if_splits)
next
  case d1: (Directory d1)
  show ?thesis
  proof (cases dir2)
    case NotADirectory
    with assms d1 show ?thesis by (simp add: compare_directories_def)
  next
    case Unlistable
    with assms d1 show ?thesis by (simp add: compare_directories_def split: if_splits)
  next
    case d2: (Directory d2)
    obtain t where t: "compare_common h d1 d2 (sorted_list_of_set (listed_files d1 \<inter> listed_files d2))
        \<lparr>matched_files = [], mismatched_files = [], error_files = []\<rparr> = Inr t"
      using compare_common_total by blast
    from assms d1 d2 t have "r = \<lparr>matched_files = matched_files t,
                       mismatched_files = mismatched_files t,
                       error_files = error_files t,
                       common_files = listed_files d1 \<inter> listed_files d2,
                       files_only_in_dir1 = listed_files d1 - listed_files d2,
                       files_only_in_dir2 = listed_files d2 - listed_files d1\<rparr>"
      by (simp add: compare_directories_def Let_def)
    then show ?thesis using that [OF d1 d2 _ _ _ t] by simp
  qed
qed

lemma compare_src_dst:
  "compare_directories (\<lambda>s. s) (Directory listing_src) (Directory listing_dst) = Inr report_src_dst"
  by code_simp

text \<open>
  Claim C9.  Whenever \<open>compare_directories\<close> gets as far as its summary, the numbers of
  matched, mismatched and error files add up to at most the number of common files (the
  files listed as regular files in both directories), and neither the files only in the
  first directory nor those only in the second contain a common file.
\<close>

theorem compare_directories_counts:
  assumes "compare_directories h dir1 dir2 = Inr r"
  shows "length (matched_files r) + length (mismatched_files r) + length (error_files r)
           \<le> card (common_files r)
         \<and> files_only_in_dir1 r \<inter> common_files r = {}
         \<and> files_only_in_dir2 r \<inter> common_files r = {}"
proof -
  from assms obtain d1 d2 t where
    c: "common_files r = listed_files d1 \<inter> listed_files d2" and
    o1: "files_only_in_dir1 r = listed_files d1 - listed_files d2" and
    o2: "files_only_in_dir2 r = listed_files d2 - listed_files d1" and
    t: "compare_common h d1 d2 (sorted_list_of_set (listed_files d1 \<inter> listed_files d2))
        \<lparr>matched_files = [], mismatched_files = [], error_files = []\<rparr> = Inr t" and
    eq: "matched_files r = matched_files t" "mismatched_files r = mismatched_files t"
      "error_files r = error_files t"
    by (rule compare_directories_Inr)
  have fin: "finite (listed_files d1 \<inter> listed_files d2)"
    by (simp add: finite_listed_files)
  have "length (sorted_list_of_set (listed_files d1 \<inter> listed_files d2))
          = card (listed_files d1 \<inter> listed_files d2)"
    by simp
  with compare_common_lengths [OF t] eq c
  have "length (matched_files r) + length (mismatched_files r) + length (error_files r)
          = card (common_files r)" by simp
  moreover from c o1 have "files_only_in_dir1 r \<inter> common_files r = {}" by blast
  moreover from c o2 have "files_only_in_dir2 r \<inter> common_files r = {}" by blast
  ultimately show ?thesis by simp
qed

theorem compare_directories_counts_witness:
  "compare_directories (\<lambda>s. s) (Directory listing_src) (Directory listing_dst) = Inr report_src_dst \<and>
   length (matched_files report_src_dst) + length (mismatched_files report_src_dst)
     + length (error_files report_src_dst) \<le> card (common_files report_src_dst) \<and>
   files_only_in_dir1 report_src_dst \<inter> common_files report_src_dst = {} \<and>
   files_only_in_dir2 report_src_dst \<inter> common_files report_src_dst = {}"
  using compare_directories_counts [OF compare_src_dst] compare_src_dst by simp

text \<open>
  Claim C10.  \<open>calculate_md5\<close> lets no exception out: whatever opening and reading the
  file does, it returns, and it returns \<open>None\<close> when the read raised; so
  \<open>compare_directories\<close> never ends with an exception of the hashing.  A common file
  with a \<open>None\<close> hash on either side is listed among the error files and among neither
  the matched nor the mismatched files.
\<close>

theorem calculate_md5_never_raises:
  "(\<forall>content. \<exists>x. calculate_md5 h content = Inr x) \<and>
   (\<forall>ex. calculate_md5 h (Inl ex) = Inr None) \<and>
   (\<forall>ex. compare_directories h dir1 dir2 \<noteq> Inl (Exc ex)) \<and>
   (compare_directories h (Directory d1) (Directory d2) = Inr r \<and> f \<in> common_files r \<and>
      (calculate_md5 h (open_read d1 f) = Inr None \<or> calculate_md5 h (open_read d2 f) = Inr None)
    \<longrightarrow> f \<in> set (error_files r) \<and> f \<notin> set (matched_files r) \<and> f \<notin> set (mismatched_files r))"
proof (intro conjI allI impI)
  fix content show "\<exists>x. calculate_md5 h content = Inr x"
    by (rule calculate_md5_returns)
next
  fix ex show "calculate_md5 h (Inl ex) = Inr None"
    by (rule calculate_md5_error)
next
  fix ex
  show "compare_directories h dir1 dir2 \<noteq> Inl (Exc ex)"
  proof (cases "compare_directories h dir1 dir2")
    case (Inr r)
    then show ?thesis by simp
  next
    case (Inl x)
    have "\<And>d1 d2 xs t. compare_common h d1 d2 xs t \<noteq> Inl ex"
    proof -
      fix d1 d2 xs t
      obtain t' where "compare_common h d1 d2 xs t = Inr t'"
        using compare_common_total by blast
      then show "compare_common h d1 d2 xs t \<noteq> Inl ex" by simp
    qed
    then show ?thesis
      by (cases dir1; cases dir2) (auto simp: compare_directories_def Let_def split: sum.splits)
  qed
next
  assume a: "compare_directories h (Directory d1) (Directory d2) = Inr r \<and> f \<in> common_files r \<and>
      (calculate_md5 h (open_read d1 f) = Inr None \<or> calculate_md5 h (open_read d2 f) = Inr None)"
  then have u: "unreadable h d1 d2 f" by (simp add: unreadable_def)
  from a have run: "compare_directories h (Directory d1) (Directory d2) = Inr r" by simp
  from run obtain t where
    c: "common_files r = listed_files d1 \<inter> listed_files d2" and
    t: "compare_common h d1 d2 (sorted_list_of_set (listed_files d1 \<inter> listed_files d2))
        \<lparr>matched_files = [], mismatched_files = [], error_files = []\<rparr> = Inr t" and
    eq: "matched_files r = matched_files t" "mismatched_files r = mismatched_files t"
      "error_files r = error_files t"
    by (rule compare_directories_Inr) simp
  have fin: "finite (listed_files d1 \<inter> listed_files d2)"
    by (simp add: finite_listed_files)
  from a c have mem: "f \<in> set (sorted_list_of_set (listed_files d1 \<inter> listed_files d2))"
    using fin by simp
  from compare_common_errors [OF t] have
    e: "set (error_files t) = {f \<in> listed_files d1 \<inter> listed_files d2. unreadable h d1 d2 f}" and
    m: "set (matched_files t) \<union> set (mismatched_files t)
          = {f \<in> listed_files d1 \<inter> listed_files d2. \<not> unreadable h d1 d2 f}"
    using fin by simp_all
  from e u mem fin have "f \<in> set (error_files r)" by (simp add: eq)
  moreover from m u have "f \<notin> set (matched_files t) \<union> set (mismatched_files t)" by simp
  ultimately show "f \<in> set (error_files r)" "f \<notin> set (matched_files r)" "f \<notin> set (mismatched_files r)"
    by (simp_all add: eq)
qed

theorem calculate_md5_never_raises_witness:
  "compare_directories (\<lambda>s. s) (Directory listing_src) (Directory listing_dst) = Inr report_src_dst \<and>
   ''B.BIN'' \<in> common_files report_src_dst \<and>
   calculate_md5 (\<lambda>s. s) (open_read listing_dst ''B.BIN'') = Inr None \<and>
   ''B.BIN'' \<in> set (error_files report_src_dst) \<and>
   ''B.BIN'' \<notin> set (matched_files report_src_dst) \<and>
   ''B.BIN'' \<notin> set (mismatched_files report_src_dst)"
proof -
  have c: "''B.BIN'' \<in> common_files report_src_dst"
    by (simp add: report_src_dst_def)
  have n: "calculate_md5 (\<lambda>s. s) (open_read listing_dst ''B.BIN'') = Inr None"
    by (simp add: listing_dst_def open_read_def calculate_md5_def)
  from calculate_md5_never_raises
    [of "\<lambda>s. s" "Directory listing_src" "Directory listing_dst" listing_src listing_dst
        report_src_dst "''B.BIN''"]
    compare_src_dst c n
  show ?thesis by blast
qed

section \<open>The harness: cleanup\<close>

lemmas prim_defs = emit_def set_status_def spawn_def poll_def terminate_def kill_def
  terminate_if_running_def rmtree_ignore_errors_def

lemma rmtree_idem:
  "(\<forall>n'. rmtree n = Some n' \<longrightarrow> rmtree n' = Some n')"
  "rmtree_entries (rmtree_entries es) = rmtree_entries es"
  by (induction n and es rule: rmtree_rmtree_entries.induct)
     (auto simp: Let_def split: option.splits if_splits)

lemma rmtree_again: "rmtree n = Some n' \<Longrightarrow> rmtree n' = Some n'"
  using rmtree_idem(1) by blast

lemma cleanup_socat_process:
  "socat_process (cleanup e w) = (if use_socat_globally w then None else socat_process w)"
  by (simp add: cleanup_def prim_defs Let_def split: option.splits)

lemma cleanup_use_socat: "use_socat_globally (cleanup e w) = use_socat_globally w"
  by (simp add: cleanup_def prim_defs Let_def split: option.splits)

lemma cleanup_temp: "temp_base_dir_path (cleanup e w) = temp_base_dir_path w"
  by (simp add: cleanup_def prim_defs Let_def split: option.splits)

lemma cleanup_session_root:
  "session_root (cleanup e w) =
     (if temp_base_dir_path w = None then session_root w
      else case session_root w of None \<Rightarrow> None | Some n \<Rightarrow> rmtree n)"
  by (auto simp add: cleanup_def prim_defs Let_def split: option.splits)

lemma cleanup_procs_idle:
  "socat_process w = None \<or> use_socat_globally w = False \<Longrightarrow> procs (cleanup e w) = procs w"
  by (auto simp add: cleanup_def prim_defs Let_def split: option.splits)

text \<open>
  Claim C6.  \<open>cleanup\<close> has no raising branch (the timeout of \<open>wait\<close> is caught, removal
  ignores errors), and calling it a second time changes neither the loopback handle, nor
  any process, nor the session directory tree: what the first call left is what the
  second leaves.
\<close>

theorem cleanup_idempotent:
  "observable (cleanup e (cleanup e w)) = observable (cleanup e w)"
proof -
  let ?w1 = "cleanup e w"
  have sp: "socat_process (cleanup e ?w1) = socat_process ?w1"
    by (simp add: cleanup_socat_process cleanup_use_socat)
  have "socat_process ?w1 = None \<or> use_socat_globally ?w1 = False"
    by (simp add: cleanup_socat_process cleanup_use_socat)
  then have pr: "procs (cleanup e ?w1) = procs ?w1"
    by (rule cleanup_procs_idle)
  have sr: "session_root (cleanup e ?w1) = session_root ?w1"
    by (auto simp: cleanup_session_root cleanup_temp split: option.splits dest: rmtree_again)
  show ?thesis
    by (simp add: observable_def sp pr sr)
qed

section \<open>The harness: the steps of main\_logic\<close>

declare poll_ptys.simps [simp del]

lemma poll_frame [simp]:
  "trace (poll e p w) = trace w" "socat_process (poll e p w) = socat_process w"
  "port_for_recv (poll e p w) = port_for_recv w" "port_for_send (poll e p w) = port_for_send w"
  "temp_base_dir_path (poll e p w) = temp_base_dir_path w"
  "use_socat_globally (poll e p w) = use_socat_globally w"
  "session_root (poll e p w) = session_root w"
  "q \<noteq> p \<Longrightarrow> procs (poll e p w) q = procs w q"
  by (simp_all add: poll_def set_status_def)

lemma kill_frame [simp]:
  "trace (kill e p w) = trace w @ [Kill p]" "socat_process (kill e p w) = socat_process w"
  "port_for_recv (kill e p w) = port_for_recv w" "port_for_send (kill e p w) = port_for_send w"
  "temp_base_dir_path (kill e p w) = temp_base_dir_path w"
  "use_socat_globally (kill e p w) = use_socat_globally w"
  "session_root (kill e p w) = session_root w"
  "q \<noteq> p \<Longrightarrow> procs (kill e p w) q = procs w q"
  "procs (kill e p w) p \<noteq> Running"
  by (simp_all add: kill_def poll_def set_status_def emit_def Let_def)

lemma terminate_frame [simp]:
  "trace (terminate e p w) = trace w @ [Terminate p]" "socat_process (terminate e p w) = socat_process w"
  "port_for_recv (terminate e p w) = port_for_recv w" "port_for_send (terminate e p w) = port_for_send w"
  "temp_base_dir_path (terminate e p w) = temp_base_dir_path w"
  "use_socat_globally (terminate e p w) = use_socat_globally w"
  "session_root (terminate e p w) = session_root w"
  "q \<noteq> p \<Longrightarrow> procs (terminate e p w) q = procs w q"
  "procs (terminate e p w) p \<noteq> Running"
  by (simp_all add: terminate_def poll_def set_status_def emit_def Let_def)

lemma emit_frame [simp]:
  "trace (emit ev w) = trace w @ [ev]" "socat_process (emit ev w) = socat_process w"
  "port_for_recv (emit ev w) = port_for_recv w" "port_for_send (emit ev w) = port_for_send w"
  "temp_base_dir_path (emit ev w) = temp_base_dir_path w"
  "use_socat_globally (emit ev w) = use_socat_globally w"
  "session_root (emit ev w) = session_root w"
  "procs (emit ev w) = procs w"
  by (simp_all add: emit_def)

lemma spawn_frame [simp]:
  "trace (spawn p w) = trace w @ [Spawn p]" "socat_process (spawn p w) = socat_process w"
  "port_for_recv (spawn p w) = port_for_recv w" "port_for_send (spawn p w) = port_for_send w"
  "temp_base_dir_path (spawn p w) = temp_base_dir_path w"
  "use_socat_globally (spawn p w) = use_socat_globally w"
  "session_root (spawn p w) = session_root w"
  "procs (spawn p w) = (procs w)(p := Running)"
  by (simp_all add: spawn_def emit_def set_status_def)

lemma started_kept:
  "procs w p \<noteq> NotStarted \<Longrightarrow> procs (poll e p w) p \<noteq> NotStarted"
  "procs w p \<noteq> NotStarted \<Longrightarrow> procs (kill e p w) p \<noteq> NotStarted"
  "procs w p \<noteq> NotStarted \<Longrightarrow> procs (terminate e p w) p \<noteq> NotStarted"
  by (simp_all add: poll_def kill_def terminate_def set_status_def emit_def Let_def)

lemma globals_simps [simp]:
  "globals (emit ev w) = globals w" "globals (poll e p w) = globals w"
  "globals (kill e p w) = globals w" "globals (terminate e p w) = globals w"
  "globals (spawn p w) = globals w"
  by (simp_all add: globals_def)

lemma poll_ptys_footprint:
  "poll_ptys e i a b w = (r, w') \<Longrightarrow> socat_process w = Some Socat \<Longrightarrow>
   (\<exists>evs. trace w' = trace w @ evs \<and> list_all poll_event evs \<and> probes evs \<le> max_pty_wait_seconds - i) \<and>
   globals w' = globals w \<and> (\<forall>q. q \<noteq> Socat \<longrightarrow> procs w' q = procs w q) \<and>
   (case r of Inr x \<Rightarrow> procs w' = procs w
     | Inl x \<Rightarrow> (x = KeyboardInterrupt \<and> procs w' = procs w \<and> (\<exists>j. interrupt e = Some (PollSleep j)))
               \<or> (x = SystemExit 1 \<and> procs w' Socat \<noteq> Running \<and>
                   (procs w Socat = NotStarted \<or> procs w' Socat \<noteq> NotStarted)))"
proof (induction e i a b w arbitrary: r w' rule: poll_ptys.induct)
  case (1 e i a b w)
  show ?case
  proof (cases "i < max_pty_wait_seconds")
    case False
    with "1.prems" show ?thesis
      by (auto simp: poll_ptys.simps [of e i] Let_def poll_event_def probes_def started_kept
            split: if_splits)
  next
    case True
    let ?a = "if a = None then observe (pty_a e i) else a"
    let ?b = "if b = None then observe (pty_b e i) else b"
    show ?thesis
    proof (cases "both_resolved ?a ?b")
      case (Some paths)
      with True "1.prems" have "r = Inr paths" "w' = emit (Probe i) w"
        by (simp_all add: poll_ptys.simps [of e i] Let_def)
      with True show ?thesis
        by (simp add: poll_event_def probes_def)
    next
      case None
      let ?w2 = "emit (Print (NotReadyYet ?a ?b (i + 1))) (emit (Probe i) w)"
      show ?thesis
      proof (cases "interrupt e = Some (PollSleep i)")
        case int: True
        with True None "1.prems" have "r = Inl KeyboardInterrupt" "w' = ?w2"
          by (simp_all add: poll_ptys.simps [of e i] Let_def)
        with True int show ?thesis
          by (simp add: poll_event_def probes_def)
      next
        case noint: False
        with True None "1.prems"
        have rec: "poll_ptys e (i + 1) ?a ?b (emit Sleep ?w2) = (r, w')"
          by (simp add: poll_ptys.simps [of e i] Let_def)
        have sp: "socat_process (emit Sleep ?w2) = Some Socat"
          using "1.prems"(2) by simp
        note ih = "1.IH" [OF True refl refl refl None refl noint rec sp]
        then obtain evs where evs: "trace w' = trace (emit Sleep ?w2) @ evs" "list_all poll_event evs"
          "probes evs \<le> max_pty_wait_seconds - (i + 1)" by blast
        have "trace w' = trace w @ ([Probe i, Print (NotReadyYet ?a ?b (i + 1)), Sleep] @ evs)"
          using evs(1) by simp
        moreover have "list_all poll_event ([Probe i, Print (NotReadyYet ?a ?b (i + 1)), Sleep] @ evs)"
          using evs(2) by (simp add: poll_event_def)
        moreover have "probes ([Probe i, Print (NotReadyYet ?a ?b (i + 1)), Sleep] @ evs)
                         \<le> max_pty_wait_seconds - i"
          using evs(3) True by (simp add: probes_def)
        ultimately have "\<exists>evs. trace w' = trace w @ evs \<and> list_all poll_event evs \<and>
            probes evs \<le> max_pty_wait_seconds - i" by blast
        with ih show ?thesis by (cases r) simp_all
      qed
    qed
  qed
qed

text \<open>When the attempts are used up, the last progress line carries the latched state.\<close>

lemma latched_step:
  "a = latched f i \<Longrightarrow> (if a = None then observe (f i) else a) = latched f (Suc i)"
  by (cases "latched f i") simp_all

lemma poll_ptys_exhausted:
  "\<not> i < max_pty_wait_seconds \<Longrightarrow> poll_ptys e i a b w = (r, w') \<Longrightarrow>
   r = Inl (SystemExit 1) \<and> (\<exists>post. trace w' = trace w @ [Print ErrPtyTimeout] @ post)"
  by (auto simp add: poll_ptys.simps [of e i] Let_def split: option.splits if_splits)

lemma poll_ptys_timeout:
  "poll_ptys e i a b w = (Inl (SystemExit c), w') \<Longrightarrow> i < max_pty_wait_seconds \<Longrightarrow>
   a = latched (pty_a e) i \<Longrightarrow> b = latched (pty_b e) i \<Longrightarrow>
   \<exists>pre post. trace w' = trace w @ pre @
       [Print (NotReadyYet (latched (pty_a e) max_pty_wait_seconds)
                           (latched (pty_b e) max_pty_wait_seconds) max_pty_wait_seconds),
        Sleep, Print ErrPtyTimeout] @ post"
proof (induction e i a b w arbitrary: w' rule: poll_ptys.induct)
  case (1 e i a b w)
  let ?a = "if a = None then observe (pty_a e i) else a"
  let ?b = "if b = None then observe (pty_b e i) else b"
  have la: "?a = latched (pty_a e) (Suc i)" using "1.prems"(3) by (rule latched_step)
  have lb: "?b = latched (pty_b e) (Suc i)" using "1.prems"(4) by (rule latched_step)
  note lt = "1.prems"(2)
  let ?w2 = "emit (Print (NotReadyYet ?a ?b (i + 1))) (emit (Probe i) w)"
  from "1.prems"(1) lt have None: "both_resolved ?a ?b = None"
    by (cases "both_resolved ?a ?b") (simp_all add: poll_ptys.simps [of e i] Let_def)
  from "1.prems"(1) lt None have noint: "interrupt e \<noteq> Some (PollSleep i)"
    by (auto simp add: poll_ptys.simps [of e i] Let_def)
  from "1.prems"(1) lt None noint
  have rec: "poll_ptys e (i + 1) ?a ?b (emit Sleep ?w2) = (Inl (SystemExit c), w')"
    by (simp add: poll_ptys.simps [of e i] Let_def)
  show ?case
  proof (cases "i + 1 < max_pty_wait_seconds")
    case True
    from "1.IH" [OF lt refl refl refl None refl noint rec True] la lb
    obtain pre post where "trace w' = trace (emit Sleep ?w2) @ pre @
       [Print (NotReadyYet (latched (pty_a e) max_pty_wait_seconds)
                           (latched (pty_b e) max_pty_wait_seconds) max_pty_wait_seconds),
        Sleep, Print ErrPtyTimeout] @ post" by auto
    then have "trace w' = trace w @ ([Probe i, Print (NotReadyYet ?a ?b (i + 1)), Sleep] @ pre) @
       [Print (NotReadyYet (latched (pty_a e) max_pty_wait_seconds)
                           (latched (pty_b e) max_pty_wait_seconds) max_pty_wait_seconds),
        Sleep, Print ErrPtyTimeout] @ post" by simp
    then show ?thesis by blast
  next
    case False
    with lt have last: "Suc i = max_pty_wait_seconds" by simp
    from poll_ptys_exhausted [OF False rec]
    obtain post where "trace w' = trace (emit Sleep ?w2) @ [Print ErrPtyTimeout] @ post"
      by blast
    then have "trace w' = trace w @ [Probe i] @
        [Print (NotReadyYet ?a ?b (Suc i)), Sleep, Print ErrPtyTimeout] @ post" by simp
    then have "trace w' = trace w @ [Probe i] @
        [Print (NotReadyYet (latched (pty_a e) max_pty_wait_seconds)
                            (latched (pty_b e) max_pty_wait_seconds) max_pty_wait_seconds),
         Sleep, Print ErrPtyTimeout] @ post"
      unfolding la lb last .
    then show ?thesis by blast
  qed
qed

lemma poll_ptys_Inl_exit:
  "poll_ptys e i a b w = (Inl (SystemExit c), w') \<Longrightarrow> c = 1 \<and> Print ErrPtyTimeout \<in> set (trace w')"
proof (induction e i a b w arbitrary: w' rule: poll_ptys.induct)
  case (1 e i a b w)
  show ?case
  proof (cases "i < max_pty_wait_seconds")
    case False
    with "1.prems" show ?thesis
      by (auto simp: poll_ptys.simps [of e i] Let_def split: option.splits if_splits)
  next
    case True
    let ?a = "if a = None then observe (pty_a e i) else a"
    let ?b = "if b = None then observe (pty_b e i) else b"
    let ?w2 = "emit (Print (NotReadyYet ?a ?b (i + 1))) (emit (Probe i) w)"
    from "1.prems"(1) True have None: "both_resolved ?a ?b = None"
      by (cases "both_resolved ?a ?b") (simp_all add: poll_ptys.simps [of e i] Let_def)
    from "1.prems"(1) True None have noint: "interrupt e \<noteq> Some (PollSleep i)"
      by (auto simp add: poll_ptys.simps [of e i] Let_def)
    from "1.prems"(1) True None noint
    have rec: "poll_ptys e (i + 1) ?a ?b (emit Sleep ?w2) = (Inl (SystemExit c), w')"
      by (simp add: poll_ptys.simps [of e i] Let_def)
    from "1.IH" [OF True refl refl refl None refl noint rec] show ?thesis .
  qed
qed

lemma grows_refl [simp]: "grows K w w"
  by (simp add: grows_def)

lemma grows_emit: "step_event k ev \<Longrightarrow> k \<in> K \<Longrightarrow> grows K w w' \<Longrightarrow> grows K w (emit ev w')"
  by (auto simp: grows_def)

lemma grows_trans: "grows K w w1 \<Longrightarrow> grows K w1 w2 \<Longrightarrow> grows K w w2"
  by (auto simp: grows_def)

lemma grows_mono: "grows K w w' \<Longrightarrow> K \<subseteq> K' \<Longrightarrow> grows K' w w'"
  unfolding grows_def list_all_iff by (meson subsetD)

lemma grows_trace_eq: "trace w' = trace w \<Longrightarrow> grows K w w'"
  by (simp add: grows_def)

lemma grows_app:
  "trace w' = trace w @ evs \<Longrightarrow> list_all (\<lambda>ev. \<exists>k\<in>K. step_event k ev) evs \<Longrightarrow> grows K w w'"
  by (auto simp: grows_def)

lemma grows_mem:
  "grows K w w' \<Longrightarrow> ev \<in> set (trace w') \<Longrightarrow> ev \<in> set (trace w) \<or> (\<exists>k\<in>K. step_event k ev)"
  by (auto simp: grows_def list_all_iff)

lemma grows_keeps: "grows K w w' \<Longrightarrow> ev \<in> set (trace w) \<Longrightarrow> ev \<in> set (trace w')"
  by (auto simp: grows_def)

lemma poll_event_step: "poll_event ev \<Longrightarrow> step_event 3 ev"
  by (cases ev) (auto simp: poll_event_def split: msg.splits)

lemma grows_probes:
  assumes "grows K w w'" and "3 \<notin> K"
  shows "probes (trace w') = probes (trace w)"
proof -
  from assms(1) obtain evs where evs: "trace w' = trace w @ evs"
    "list_all (\<lambda>ev. \<exists>k\<in>K. step_event k ev) evs"
    by (auto simp: grows_def)
  have "filter is_probe evs = []"
  proof (rule filter_False, rule ballI)
    fix ev assume "ev \<in> set evs"
    with evs(2) obtain k where "k \<in> K" "step_event k ev" by (auto simp: list_all_iff)
    with assms(2) show "\<not> is_probe ev" by (cases ev) auto
  qed
  with evs(1) show ?thesis by (simp add: probes_def)
qed

lemma tool_err_emit [simp]:
  "tool_err (emit (Print (ErrNotExecutable n p)) w)" "tool_err (emit (Print (ErrNotFound n p)) w)"
  "tool_err (emit (Print (Found n p)) w) = tool_err w"
  "tool_err (emit (Print (FoundDirect n p)) w) = tool_err w"
  by (auto simp: tool_err_def)

lemma check_command_step: "tool_step w (check_command e s n w)"
  by (simp add: tool_step_def check_command_def Let_def grows_emit split: option.splits)

lemma tool_step_andthen:
  assumes "tool_step w m" and "\<And>v. fst m = Inr v \<Longrightarrow> tool_step (snd m) (f v (snd m))"
  shows "tool_step w (andthen m f)"
proof (cases m)
  case (Pair r w1)
  show ?thesis
  proof (cases r)
    case (Inl x)
    with Pair assms(1) show ?thesis by (simp add: andthen_def tool_step_def)
  next
    case (Inr v)
    with Pair assms(2) [of v] have 2: "tool_step w1 (f v w1)" by simp
    from Pair Inr assms(1) have 1: "grows {1} w w1" "globals w1 = globals w" "procs w1 = procs w"
      "tool_err w1 = tool_err w" by (simp_all add: tool_step_def)
    from 1 2 have "tool_step w (f v w1)"
      by (auto simp: tool_step_def intro: grows_trans split: sum.splits)
    with Pair Inr show ?thesis by (simp add: andthen_def)
  qed
qed

lemma tool_step_return: "tool_step w (Inr v, w)"
  by (simp add: tool_step_def)

lemma tool_checks_step: "tool_step w (tool_checks e a w)"
  unfolding tool_checks_def
  by (intro tool_step_andthen check_command_step tool_step_return)
     (auto intro!: tool_step_andthen check_command_step tool_step_return)

lemma set_status_frame [simp]:
  "trace (set_status p s w) = trace w" "globals (set_status p s w) = globals w"
  "procs (set_status p s w) = (procs w)(p := s)"
  by (simp_all add: set_status_def globals_def)

lemma rmtree_ie_frame [simp]:
  "trace (rmtree_ignore_errors w) = trace w @ [Rmtree]"
  "procs (rmtree_ignore_errors w) = procs w"
  "socat_process (rmtree_ignore_errors w) = socat_process w"
  "port_for_recv (rmtree_ignore_errors w) = port_for_recv w"
  "port_for_send (rmtree_ignore_errors w) = port_for_send w"
  "temp_base_dir_path (rmtree_ignore_errors w) = temp_base_dir_path w"
  "use_socat_globally (rmtree_ignore_errors w) = use_socat_globally w"
  by (simp_all add: rmtree_ignore_errors_def emit_def)

lemma port_strategy_step:
  "port_strategy e a w = (r, w') \<Longrightarrow>
   grows {0} w w' \<and> procs w' = procs w \<and> socat_process w' = socat_process w \<and>
   temp_base_dir_path w' = temp_base_dir_path w \<and> session_root w' = session_root w \<and>
   (case r of Inl x \<Rightarrow> x = SystemExit 1
    | Inr u \<Rightarrow>
       if truthy (com_port_recv_arg a) \<and> truthy (com_port_send_arg a)
       then use_socat_globally w' = False \<and> port_for_recv w' = com_port_recv_arg a \<and>
            port_for_send w' = com_port_send_arg a
       else use_socat_globally w' = True \<and> port_for_recv w' = port_for_recv w \<and>
            port_for_send w' = port_for_send w)"
  by (auto simp: port_strategy_def Let_def grows_def emit_def split: if_splits)

lemma tool_err_emit_iff:
  "tool_err (emit ev w) =
     (tool_err w \<or> (\<exists>n p. ev = Print (ErrNotExecutable n p) \<or> ev = Print (ErrNotFound n p)))"
  unfolding tool_err_def by (simp add: emit_def) blast

lemma check_disk_image_step:
  "check_disk_image e a w = (r, w') \<Longrightarrow>
   grows {1} w w' \<and> globals w' = globals w \<and> procs w' = procs w \<and> tool_err w' = tool_err w \<and>
   (case r of Inl x \<Rightarrow> x = SystemExit 1 | Inr u \<Rightarrow> True)"
  by (auto simp: check_disk_image_def grows_emit tool_err_emit_iff split: if_splits)

lemma setup_dirs_step:
  "setup_dirs e w = (r, w') \<Longrightarrow>
   grows {2} w w' \<and> procs w' = procs w \<and> socat_process w' = socat_process w \<and>
   port_for_recv w' = port_for_recv w \<and> port_for_send w' = port_for_send w \<and>
   use_socat_globally w' = use_socat_globally w \<and> temp_base_dir_path w' \<noteq> None \<and>
   (case r of Inl x \<Rightarrow> x = Exc IOError | Inr u \<Rightarrow> session_root w' = Some (session_tree e))"
  by (auto simp: setup_dirs_def Let_def grows_def split: if_splits)

lemma wait_running:
  "procs w p = Running \<Longrightarrow>
   wait e p w = (exit_code e p, emit (ChildExit p (exit_code e p)) (set_status p (Exited (exit_code e p)) w))"
  by (simp add: wait_def)

lemma run_child_step:
  "run_child e p st w = (r, w') \<Longrightarrow>
   (r = Inl (Exc OtherException) \<and> w' = w) \<or>
   (r = Inl KeyboardInterrupt \<and> interrupt e = Some st \<and> trace w' = trace w @ [Spawn p, Kill p] \<and>
      globals w' = globals w \<and> (\<forall>q. q \<noteq> p \<longrightarrow> procs w' q = procs w q) \<and>
      procs w' p \<noteq> Running \<and> procs w' p \<noteq> NotStarted) \<or>
   (r = Inr (exit_code e p) \<and> interrupt e \<noteq> Some st \<and>
      trace w' = trace w @ [Spawn p, ChildExit p (exit_code e p)] \<and>
      globals w' = globals w \<and> procs w' = (procs w)(p := Exited (exit_code e p)))"
  by (auto simp: run_child_def Let_def wait_running spawn_def emit_def set_status_def globals_def
        kill_def poll_def split: if_splits)

lemma poll_ptys_no_timeout:
  "poll_ptys e i a b w = (r, w') \<Longrightarrow> r \<noteq> Inl (SystemExit 1) \<Longrightarrow>
   Print ErrPtyTimeout \<in> set (trace w') \<Longrightarrow> Print ErrPtyTimeout \<in> set (trace w)"
proof (induction e i a b w arbitrary: w' rule: poll_ptys.induct)
  case (1 e i a b w)
  show ?case
  proof (cases "i < max_pty_wait_seconds")
    case False
    from poll_ptys_exhausted [OF False "1.prems"(1)] "1.prems"(2) show ?thesis by simp
  next
    case True
    let ?a = "if a = None then observe (pty_a e i) else a"
    let ?b = "if b = None then observe (pty_b e i) else b"
    let ?w2 = "emit (Print (NotReadyYet ?a ?b (i + 1))) (emit (Probe i) w)"
    show ?thesis
    proof (cases "both_resolved ?a ?b")
      case (Some paths)
      with True "1.prems" show ?thesis
        by (auto simp add: poll_ptys.simps [of e i] Let_def)
    next
      case None
      show ?thesis
      proof (cases "interrupt e = Some (PollSleep i)")
        case True
        with \<open>i < max_pty_wait_seconds\<close> None "1.prems" show ?thesis
          by (auto simp add: poll_ptys.simps [of e i] Let_def)
      next
        case noint: False
        with True None "1.prems"(1)
        have rec: "poll_ptys e (i + 1) ?a ?b (emit Sleep ?w2) = (r, w')"
          by (simp add: poll_ptys.simps [of e i] Let_def)
        from "1.IH" [OF True refl refl refl None refl noint rec "1.prems"(2) "1.prems"(3)]
        show ?thesis by simp
      qed
    qed
  qed
qed

lemma poll_ptys_grows:
  assumes "poll_ptys e i a b w = (r, w')" "socat_process w = Some Socat"
  shows "grows {3} w w'" "probes (trace w') \<le> probes (trace w) + max_pty_wait_seconds"
proof -
  from poll_ptys_footprint [OF assms] obtain evs where
    evs: "trace w' = trace w @ evs" "list_all poll_event evs" "probes evs \<le> max_pty_wait_seconds - i"
    by blast
  from evs(2) have "list_all (\<lambda>ev. \<exists>k\<in>{3}. step_event k ev) evs"
    by (simp add: list_all_iff poll_event_step)
  with evs(1) show "grows {3} w w'" by (rule grows_app)
  from evs(1,3) show "probes (trace w') \<le> probes (trace w) + max_pty_wait_seconds"
    by (simp add: probes_def)
qed

lemma socat_setup_skip:
  "use_socat_globally w = False \<Longrightarrow> socat_setup e w = (Inr (), w)"
  by (simp add: socat_setup_def)

lemma socat_setup_step:
  assumes run: "socat_setup e w = (r, w')" and use: "use_socat_globally w"
  shows "grows {3} w w' \<and> probes (trace w') \<le> probes (trace w) + max_pty_wait_seconds \<and>
     temp_base_dir_path w' = temp_base_dir_path w \<and> session_root w' = session_root w \<and>
     use_socat_globally w' = use_socat_globally w \<and> (\<forall>q. q \<noteq> Socat \<longrightarrow> procs w' q = procs w q) \<and>
     ((r = Inl (SystemExit 1) \<and> socat_process w' = socat_process w \<and> procs w' = procs w \<and>
         trace w' = trace w @ [Print StartingSocat, Print ErrStartingSocat]) \<or>
      (socat_process w' = Some Socat \<and> Spawn Socat \<in> set (trace w') \<and> procs w' Socat \<noteq> NotStarted \<and>
         (case r of Inr u \<Rightarrow> True
          | Inl x \<Rightarrow> (x = KeyboardInterrupt \<and> interrupt e \<noteq> None) \<or>
                       (x = SystemExit 1 \<and> procs w' Socat \<noteq> Running))))"
proof (cases "popen_fails e Socat")
  case True
  with run use have "r = Inl (SystemExit 1)"
    "w' = emit (Print ErrStartingSocat) (emit (Print StartingSocat) w)"
    by (simp_all add: socat_setup_def Let_def)
  then show ?thesis
    by (simp add: grows_emit probes_def)
next
  case False
  let ?w2 = "emit (Print WaitingForPtys) ((spawn Socat (emit (Print StartingSocat) w))\<lparr>socat_process := Some Socat\<rparr>)"
  obtain rp wp where p: "poll_ptys e 0 None None ?w2 = (rp, wp)" by (cases "poll_ptys e 0 None None ?w2")
  have sp: "socat_process ?w2 = Some Socat" by simp
  have tr2: "trace ?w2 = trace w @ [Print StartingSocat, Spawn Socat, Print WaitingForPtys]" by simp
  have g2: "grows {3} w ?w2"
    by (rule grows_app [OF tr2]) simp
  note fp = poll_ptys_footprint [OF p sp]
  note gr = poll_ptys_grows [OF p sp]
  have g3: "grows {3} w wp" using g2 gr(1) by (rule grows_trans)
  have pr: "probes (trace wp) \<le> probes (trace w) + max_pty_wait_seconds"
    using gr(2) by (simp add: probes_def)
  have spawn_in: "Spawn Socat \<in> set (trace wp)"
    using grows_keeps [OF gr(1), of "Spawn Socat"] by simp
  from fp have gl: "globals wp = globals ?w2" by simp
  have fr: "\<forall>q. q \<noteq> Socat \<longrightarrow> procs wp q = procs w q"
    using fp by simp
  show ?thesis
  proof (cases rp)
    case (Inl x)
    with run use False p have r: "r = Inl x" "w' = wp"
      by (simp_all add: socat_setup_def Let_def andthen_def)
    from fp Inl have "(x = KeyboardInterrupt \<and> procs wp = procs ?w2 \<and> interrupt e \<noteq> None)
        \<or> (x = SystemExit 1 \<and> procs wp Socat \<noteq> Running)" by auto
    moreover have "procs wp Socat \<noteq> NotStarted"
      using fp Inl by auto
    ultimately show ?thesis
      using r g3 pr spawn_in gl fr by (auto simp: globals_def)
  next
    case (Inr paths)
    obtain pa pb where paths: "paths = (pa, pb)" by (cases paths)
    let ?w4 = "emit (Print (PtyPorts pa pb)) (wp\<lparr>port_for_recv := Some pa, port_for_send := Some pb\<rparr>)"
    from fp Inr have pp: "procs wp = procs ?w2" by simp
    from run use False p Inr paths
    have r: "(r = Inl KeyboardInterrupt \<and> interrupt e \<noteq> None \<and> w' = ?w4) \<or> (r = Inr () \<and> w' = emit Sleep ?w4)"
      by (auto simp add: socat_setup_def Let_def andthen_def split: if_splits)
    have g4: "grows {3} w ?w4"
      by (rule grows_emit [OF _ _ grows_trans [OF g3 grows_trace_eq]]) simp_all
    have g5: "grows {3} w (emit Sleep ?w4)"
      by (rule grows_emit [OF _ _ g4]) simp_all
    have pr4: "probes (trace ?w4) = probes (trace wp)" "probes (trace (emit Sleep ?w4)) = probes (trace wp)"
      by (simp_all add: probes_def)
    from r show ?thesis
      using g4 g5 pr pr4 spawn_in gl fr pp by (auto simp: globals_def)
  qed
qed

lemma extraction_step:
  assumes "extraction e w = (r, w')"
  shows "grows {4} w w' \<and> globals w' = globals w \<and> (\<forall>q. q \<noteq> Extractor \<longrightarrow> procs w' q = procs w q) \<and>
     (procs w Extractor = Running \<or> procs w' Extractor \<noteq> Running) \<and>
     (case r of
        Inr u \<Rightarrow> regular_files (extracted_dir_1 e) \<noteq> []
      | Inl x \<Rightarrow> (x = SystemExit 0 \<and> regular_files (extracted_dir_1 e) = [] \<and>
                     Print NoFilesToTransfer \<in> set (trace w')) \<or>
                  (x = SystemExit 1 \<and> ChildExit Extractor 0 \<notin> set (trace w') - set (trace w)) \<or>
                  (x = KeyboardInterrupt \<and> interrupt e = Some Extraction \<and>
                     ChildExit Extractor 0 \<notin> set (trace w') - set (trace w)) \<or>
                  (x = Exc OtherException \<and> ChildExit Extractor 0 \<notin> set (trace w') - set (trace w)))"
proof -
  let ?w1 = "emit (Print Extracting) w"
  obtain rc wc where c: "run_child e Extractor Extraction ?w1 = (rc, wc)"
    by (cases "run_child e Extractor Extraction ?w1")
  from run_child_step [OF c] show ?thesis
  proof (elim disjE conjE)
    assume "rc = Inl (Exc OtherException)" "wc = ?w1"
    with assms c have "r = Inl (Exc OtherException)" "w' = ?w1"
      by (simp_all add: extraction_def andthen_def)
    then show ?thesis by (simp add: grows_emit)
  next
    assume a: "rc = Inl KeyboardInterrupt" "interrupt e = Some Extraction"
      "trace wc = trace ?w1 @ [Spawn Extractor, Kill Extractor]" "globals wc = globals ?w1"
      "\<forall>q. q \<noteq> Extractor \<longrightarrow> procs wc q = procs ?w1 q" "procs wc Extractor \<noteq> Running"
    with assms c have r: "r = Inl KeyboardInterrupt" "w' = wc"
      by (simp_all add: extraction_def andthen_def)
    have "grows {4} w wc"
      by (rule grows_app [of _ _ "[Print Extracting, Spawn Extractor, Kill Extractor]"]) (simp_all add: a)
    with r a show ?thesis by simp
  next
    assume a: "rc = Inr (exit_code e Extractor)" "interrupt e \<noteq> Some Extraction"
      "trace wc = trace ?w1 @ [Spawn Extractor, ChildExit Extractor (exit_code e Extractor)]"
      "globals wc = globals ?w1" "procs wc = (procs ?w1)(Extractor := Exited (exit_code e Extractor))"
    have g: "grows {4} w wc"
      by (rule grows_app [of _ _ "[Print Extracting, Spawn Extractor, ChildExit Extractor (exit_code e Extractor)]"])
         (simp_all add: a)
    show ?thesis
    proof (cases "exit_code e Extractor = 0")
      case False
      with assms c a have r: "r = Inl (SystemExit 1)" "w' = emit (Print (ErrExtract (exit_code e Extractor))) wc"
        by (simp_all add: extraction_def andthen_def)
      with a g False show ?thesis by (simp add: grows_emit)
    next
      case True
      let ?n = "length (regular_files (extracted_dir_1 e))"
      let ?w3 = "emit (Print (Extracted ?n)) wc"
      from assms c a True
      have r: "(regular_files (extracted_dir_1 e) = [] \<and> r = Inl (SystemExit 0) \<and> w' = emit (Print NoFilesToTransfer) ?w3)
             \<or> (regular_files (extracted_dir_1 e) \<noteq> [] \<and> r = Inr () \<and> w' = ?w3)"
        by (auto simp add: extraction_def andthen_def Let_def split: if_splits)
      have g3: "grows {4} w ?w3" using g by (simp add: grows_emit)
      then have g4: "grows {4} w (emit (Print NoFilesToTransfer) ?w3)" by (simp add: grows_emit)
      from r g3 g4 a show ?thesis by auto
    qed
  qed
qed

lemma comparison_step:
  assumes "comparison e a w = (r, w')"
  shows "grows {6} w w' \<and> globals w' = globals w \<and> (\<forall>q. q \<noteq> Comparer \<longrightarrow> procs w' q = procs w q) \<and>
     (procs w Comparer = Running \<or> procs w' Comparer \<noteq> Running) \<and>
     (\<exists>x. r = Inl x \<and> (x = KeyboardInterrupt \<longrightarrow> interrupt e = Some Comparing) \<and>
        (x = SystemExit 0 \<longrightarrow> exit_code e Comparer = 0 \<and> Print Passed \<in> set (trace w')))"
proof -
  let ?w1 = "emit (Print ComparingFiles) w"
  show ?thesis
  proof (cases "endswith_py (compare_md5_exec a) \<and> which e ''python3'' = None \<and> which e ''python'' = None")
    case True
    with assms have "r = Inl (SystemExit 1)" "w' = emit (Print ErrNoPython) ?w1"
      by (simp_all add: comparison_def Let_def)
    then show ?thesis by (simp add: grows_emit)
  next
    case False
    obtain rc wc where c: "run_child e Comparer Comparing ?w1 = (rc, wc)"
      by (cases "run_child e Comparer Comparing ?w1")
    from run_child_step [OF c] show ?thesis
    proof (elim disjE conjE)
      assume "rc = Inl (Exc OtherException)" "wc = ?w1"
      with assms c False have "r = Inl (Exc OtherException)" "w' = ?w1"
        by (auto simp add: comparison_def andthen_def Let_def)
      then show ?thesis by (simp add: grows_emit)
    next
      assume a: "rc = Inl KeyboardInterrupt" "interrupt e = Some Comparing"
        "trace wc = trace ?w1 @ [Spawn Comparer, Kill Comparer]" "globals wc = globals ?w1"
        "\<forall>q. q \<noteq> Comparer \<longrightarrow> procs wc q = procs ?w1 q" "procs wc Comparer \<noteq> Running"
      with assms c False have r: "r = Inl KeyboardInterrupt" "w' = wc"
        by (auto simp add: comparison_def andthen_def Let_def)
      have "grows {6} w wc"
        by (rule grows_app [of _ _ "[Print ComparingFiles, Spawn Comparer, Kill Comparer]"]) (simp_all add: a)
      with r a show ?thesis by simp
    next
      assume a: "rc = Inr (exit_code e Comparer)" "interrupt e \<noteq> Some Comparing"
        "trace wc = trace ?w1 @ [Spawn Comparer, ChildExit Comparer (exit_code e Comparer)]"
        "globals wc = globals ?w1" "procs wc = (procs ?w1)(Comparer := Exited (exit_code e Comparer))"
      have g: "grows {6} w wc"
        by (rule grows_app [of _ _ "[Print ComparingFiles, Spawn Comparer, ChildExit Comparer (exit_code e Comparer)]"])
           (simp_all add: a)
      from assms c a False
      have r: "(exit_code e Comparer \<noteq> 0 \<and> r = Inl (SystemExit 1) \<and> w' = emit (Print (ErrCompareFailed (exit_code e Comparer))) wc)
             \<or> (exit_code e Comparer = 0 \<and> r = Inl (SystemExit 0) \<and> w' = emit (Print Passed) (emit (Print PrintedReport) wc))"
        by (auto simp add: comparison_def andthen_def Let_def split: if_splits)
      from g have "grows {6} w (emit (Print (ErrCompareFailed (exit_code e Comparer))) wc)"
        "grows {6} w (emit (Print Passed) (emit (Print PrintedReport) wc))"
        by (simp_all add: grows_emit)
      with r a show ?thesis by auto
    qed
  qed
qed

lemma tir_frame [simp]:
  "trace (terminate_if_running e p w) = trace w @ (if procs (poll e p w) p = Running then [Terminate p] else [])"
  "globals (terminate_if_running e p w) = globals w"
  "q \<noteq> p \<Longrightarrow> procs (terminate_if_running e p w) q = procs w q"
  "procs (terminate_if_running e p w) p \<noteq> Running"
  "procs w p \<noteq> NotStarted \<Longrightarrow> procs (terminate_if_running e p w) p \<noteq> NotStarted"
  by (auto simp add: terminate_if_running_def Let_def terminate_def poll_def set_status_def emit_def globals_def)

lemma tir_running:
  "procs w Recv = Running \<Longrightarrow> recv_stopped e (terminate_if_running e Recv w)"
  by (simp add: recv_stopped_def terminate_if_running_def Let_def terminate_def poll_def
        set_status_def emit_def)

lemma send_recv_body_ok: "xfer_ok e w (send_recv_body e w)"
proof (cases "popen_fails e Recv")
  case True
  then show ?thesis by (simp add: send_recv_body_def xfer_ok_def)
next
  case nofail: False
  let ?w1 = "spawn Recv w"
  show ?thesis
  proof (cases "interrupt e = Some RecvSettle")
    case True
    have "grows {5} w ?w1" by (rule grows_app [of _ _ "[Spawn Recv]"]) simp_all
    with nofail True show ?thesis by (simp add: send_recv_body_def xfer_ok_def Let_def)
  next
    case nosettle: False
    let ?w2 = "emit Sleep ?w1"
    have g2: "grows {5} w ?w2" by (rule grows_app [of _ _ "[Spawn Recv, Sleep]"]) simp_all
    have st2: "procs ?w2 Recv = Running" by simp
    show ?thesis
    proof (cases "regular_files (extracted_dir_2 e) = []")
      case True
      let ?w3 = "terminate_if_running e Recv (emit (Print ErrNoFilesToSend) ?w2)"
      have eq: "send_recv_body e w = (Inl (SystemExit 1), ?w3)"
        using nofail nosettle True by (simp add: send_recv_body_def Let_def)
      have "grows {5} w ?w3"
        by (rule grows_app [of _ _ "[Spawn Recv, Sleep, Print ErrNoFilesToSend] @
              (if procs (poll e Recv (emit (Print ErrNoFilesToSend) ?w2)) Recv = Running then [Terminate Recv] else [])"])
           simp_all
      then show ?thesis
        unfolding eq xfer_ok_def by simp
    next
      case files: False
      obtain rc wc where c: "run_child e Send Sending ?w2 = (rc, wc)"
        by (cases "run_child e Send Sending ?w2")
      from run_child_step [OF c] show ?thesis
      proof (elim disjE conjE)
        assume a: "rc = Inl (Exc OtherException)" "wc = ?w2"
        with nofail nosettle files c have eq: "send_recv_body e w = (Inl (Exc OtherException), ?w2)"
          by (simp add: send_recv_body_def Let_def andthen_def)
        show ?thesis unfolding eq xfer_ok_def using g2 by simp
      next
        assume a: "rc = Inl KeyboardInterrupt" "interrupt e = Some Sending"
          "trace wc = trace ?w2 @ [Spawn Send, Kill Send]" "globals wc = globals ?w2"
          "\<forall>q. q \<noteq> Send \<longrightarrow> procs wc q = procs ?w2 q" "procs wc Send \<noteq> Running"
        with nofail nosettle files c have eq: "send_recv_body e w = (Inl KeyboardInterrupt, wc)"
          by (simp add: send_recv_body_def Let_def andthen_def)
        have "grows {5} w wc"
          by (rule grows_app [of _ _ "[Spawn Recv, Sleep, Spawn Send, Kill Send]"]) (simp_all add: a)
        then show ?thesis unfolding eq xfer_ok_def using a by simp
      next
        let ?rc = "exit_code e Send"
        assume a: "rc = Inr ?rc" "interrupt e \<noteq> Some Sending"
          "trace wc = trace ?w2 @ [Spawn Send, ChildExit Send ?rc]"
          "globals wc = globals ?w2" "procs wc = (procs ?w2)(Send := Exited ?rc)"
        have gc: "grows {5} w wc"
          by (rule grows_app [of _ _ "[Spawn Recv, Sleep, Spawn Send, ChildExit Send ?rc]"]) (simp_all add: a)
        have rcv: "procs wc Recv = Running" using a by simp
        show ?thesis
        proof (cases "?rc = 0")
          case False
          let ?w5 = "terminate_if_running e Recv (emit (Print (ErrSendFailed ?rc)) wc)"
          from nofail nosettle files c a False
          have eq: "send_recv_body e w = (Inl (SystemExit 1), ?w5)"
            by (simp add: send_recv_body_def Let_def andthen_def)
          have g5: "grows {5} w ?w5"
            by (rule grows_app [of _ _ "[Spawn Recv, Sleep, Spawn Send, ChildExit Send ?rc, Print (ErrSendFailed ?rc)] @
              (if procs (poll e Recv (emit (Print (ErrSendFailed ?rc)) wc)) Recv = Running then [Terminate Recv] else [])"])
               (simp_all add: a)
          have "procs (emit (Print (ErrSendFailed ?rc)) wc) Recv = Running" using rcv by simp
          then have ns: "recv_stopped e ?w5" by (rule tir_running)
          show ?thesis unfolding eq xfer_ok_def using g5 a ns
            by auto
        next
          case True
          let ?w4 = "emit (Print SendCompleted) wc"
          have g4: "grows {5} w ?w4" using gc by (simp add: grows_emit)
          show ?thesis
          proof (cases "interrupt e = Some RecvWait")
            case int: True
            from nofail nosettle files c a True int
            have eq: "send_recv_body e w = (Inl KeyboardInterrupt, ?w4)"
              by (simp add: send_recv_body_def Let_def andthen_def)
            show ?thesis unfolding eq xfer_ok_def using g4 a True int
              by auto
          next
            case noint: False
            let ?rr = "exit_code e Recv"
            let ?w5 = "emit (ChildExit Recv ?rr) (set_status Recv (Exited ?rr) ?w4)"
            have wt: "wait e Recv ?w4 = (?rr, ?w5)"
              by (rule wait_running) (simp add: rcv)
            from nofail nosettle files c a True noint wt
            have eq: "send_recv_body e w =
                (if ?rr \<noteq> 0 then (Inl (SystemExit 1), emit (Print (ErrRecvFailed ?rr)) ?w5)
                 else (Inr (), emit (Print RecvCompleted) ?w5))"
              by (simp add: send_recv_body_def Let_def andthen_def)
            have g5: "grows {5} w ?w5"
              by (rule grows_app [of _ _ "[Spawn Recv, Sleep, Spawn Send, ChildExit Send ?rc,
                    Print SendCompleted, ChildExit Recv ?rr]"]) (simp_all add: a)
            then have g6: "grows {5} w (emit (Print (ErrRecvFailed ?rr)) ?w5)"
              "grows {5} w (emit (Print RecvCompleted) ?w5)" by (simp_all add: grows_emit)
            show ?thesis unfolding eq xfer_ok_def using g6 a True
              by auto
          qed
        qed
      qed
    qed
  qed
qed

lemma send_and_receive_ok: "xfer_ok e w (send_and_receive e w)"
proof -
  let ?w0 = "emit (Print (SendingReceiving (port_for_send w) (port_for_recv w))) w"
  have b: "xfer_ok e ?w0 (send_recv_body e ?w0)" by (rule send_recv_body_ok)
  obtain r w1 where rw: "send_recv_body e ?w0 = (r, w1)" by (cases "send_recv_body e ?w0")
  have g0: "grows {5} w ?w0" by (simp add: grows_emit)
  note c = b [unfolded rw xfer_ok_def fst_conv snd_conv]
  note g = c [THEN conjunct1]
  note c2 = c [THEN conjunct2]
  note gl0 = c2 [THEN conjunct1]
  note c3 = c2 [THEN conjunct2]
  note fr0 = c3 [THEN conjunct1]
  note c4 = c3 [THEN conjunct2]
  note sd0 = c4 [THEN conjunct1]
  note c5 = c4 [THEN conjunct2]
  note ce = c5 [THEN conjunct1]
  note c6 = c5 [THEN conjunct2]
  note sr0 = c6 [THEN conjunct1]
  note c7 = c6 [THEN conjunct2]
  note ex0 = c7 [THEN conjunct1]
  note ki = c7 [THEN conjunct2]
  have e0: "globals ?w0 = globals w" "procs ?w0 = procs w" "port_for_send ?w0 = port_for_send w"
    "port_for_recv ?w0 = port_for_recv w" by simp_all
  note b' = gl0 [unfolded e0] fr0 [unfolded e0] sd0 [unfolded e0] sr0 [unfolded e0] ki
  have sub0: "set (trace w) \<subseteq> set (trace ?w0)" by auto
  have gw: "grows {5} w w1" using g0 g by (rule grows_trans)
  have sr: "\<forall>x y. Print (SendingReceiving x y) \<in> set (trace w1) - set (trace w) \<longrightarrow>
           x = port_for_send w \<and> y = port_for_recv w"
  proof (intro allI impI)
    fix x y assume m: "Print (SendingReceiving x y) \<in> set (trace w1) - set (trace w)"
    show "x = port_for_send w \<and> y = port_for_recv w"
    proof (cases "Print (SendingReceiving x y) \<in> set (trace ?w0)")
      case True with m show ?thesis by simp
    next
      case False with m b'(4) show ?thesis by blast
    qed
  qed
  have ce': "\<forall>rc. ChildExit Send rc \<in> set (trace w1) - set (trace w) \<longrightarrow>
           rc = exit_code e Send \<and>
           (rc \<noteq> 0 \<longrightarrow> r = Inl (SystemExit 1) \<and> Print (ErrSendFailed rc) \<in> set (trace w1) \<and>
              recv_stopped e w1)"
  proof (intro allI impI)
    fix rc assume m: "ChildExit Send rc \<in> set (trace w1) - set (trace w)"
    then have "ChildExit Send rc \<in> set (trace w1) - set (trace ?w0)" by simp
    with ce show "rc = exit_code e Send \<and>
           (rc \<noteq> 0 \<longrightarrow> r = Inl (SystemExit 1) \<and> Print (ErrSendFailed rc) \<in> set (trace w1) \<and>
              recv_stopped e w1)" by blast
  qed
  show ?thesis
  proof (cases "\<exists>x. r = Inl (Exc x)")
    case False
    then have eq: "send_and_receive e w = (r, w1)"
      using rw by (auto simp: send_and_receive_def split: sum.splits raised.splits)
    have k1: "\<forall>x. r = Inl (Exc x) \<longrightarrow> (\<forall>rc. ChildExit Send rc \<notin> set (trace w1) - set (trace w))"
      using False by simp
    show ?thesis
      unfolding eq xfer_ok_def fst_conv snd_conv
      by (intro conjI) (fact gw b'(1,2,3,5) sr ce' k1)+
  next
    case True
    then obtain x where x: "r = Inl (Exc x)" by blast
    let ?w2 = "emit (Print ErrSendRecv) w1"
    let ?wp = "poll e Recv ?w2"
    define w3 where "w3 = (if procs ?w2 Recv = NotStarted then ?w2
               else if procs ?wp Recv = Running then terminate e Recv (emit (Print TerminatingRecv) ?wp) else ?wp)"
    have eq: "send_and_receive e w = (Inl (SystemExit 1), w3)"
      using rw x by (simp add: send_and_receive_def Let_def w3_def)
    have tr3: "\<exists>evs. trace w3 = trace w1 @ evs \<and> set evs \<subseteq> {Print ErrSendRecv, Print TerminatingRecv, Terminate Recv}"
    proof (cases "procs ?w2 Recv = NotStarted")
      case True
      then have "trace w3 = trace w1 @ [Print ErrSendRecv]" by (simp add: w3_def)
      then show ?thesis by (intro exI [of _ "[Print ErrSendRecv]"]) simp
    next
      case ns: False
      show ?thesis
      proof (cases "procs ?wp Recv = Running")
        case True
        with ns have "trace w3 = trace w1 @ [Print ErrSendRecv, Print TerminatingRecv, Terminate Recv]"
          by (simp add: w3_def)
        then show ?thesis
          by (intro exI [of _ "[Print ErrSendRecv, Print TerminatingRecv, Terminate Recv]"]) simp
      next
        case False
        with ns have "trace w3 = trace w1 @ [Print ErrSendRecv]" by (simp add: w3_def)
        then show ?thesis by (intro exI [of _ "[Print ErrSendRecv]"]) simp
      qed
    qed
    then obtain evs where evs: "trace w3 = trace w1 @ evs"
      "set evs \<subseteq> {Print ErrSendRecv, Print TerminatingRecv, Terminate Recv}" by blast
    have "list_all (\<lambda>ev. \<exists>k\<in>{5}. step_event k ev) evs"
      unfolding list_all_iff using evs(2) by auto
    with evs(1) have "grows {5} w1 w3" by (rule grows_app)
    with gw have g3: "grows {5} w w3" by (rule grows_trans)
    have gl: "globals w3 = globals w" using b'(1) by (simp add: w3_def)
    have fr3: "\<And>q. q \<noteq> Recv \<Longrightarrow> procs w3 q = procs w1 q" by (simp add: w3_def)
    have fr: "\<forall>q. q \<noteq> Recv \<and> q \<noteq> Send \<longrightarrow> procs w3 q = procs w q"
      using b'(2) fr3 by metis
    have sd: "procs w Send = Running \<or> procs w3 Send \<noteq> Running" using b'(3) fr3 [of Send] by simp
    have nc: "\<forall>rc. ChildExit Send rc \<notin> set (trace w1) - set (trace ?w0)"
      using ex0 x by blast
    have mem: "\<And>ev. ev \<in> set (trace w3) \<Longrightarrow> ev \<in> set (trace w1) \<or> ev \<in> set evs"
      using evs(1) by auto
    have c1: "\<forall>rc. ChildExit Send rc \<notin> set (trace w3) - set (trace w)"
    proof (intro allI notI)
      fix rc assume "ChildExit Send rc \<in> set (trace w3) - set (trace w)"
      then have "ChildExit Send rc \<in> set (trace w1) \<or> ChildExit Send rc \<in> set evs" "ChildExit Send rc \<notin> set (trace w)"
        using mem by blast+
      with evs(2) nc show False by auto
    qed
    have c2: "\<forall>x y. Print (SendingReceiving x y) \<in> set (trace w3) - set (trace w) \<longrightarrow>
           x = port_for_send w \<and> y = port_for_recv w"
    proof (intro allI impI)
      fix x y assume "Print (SendingReceiving x y) \<in> set (trace w3) - set (trace w)"
      then have "Print (SendingReceiving x y) \<in> set (trace w1) \<or> Print (SendingReceiving x y) \<in> set evs"
        "Print (SendingReceiving x y) \<notin> set (trace w)"
        using mem by blast+
      with evs(2) sr show "x = port_for_send w \<and> y = port_for_recv w" by auto
    qed
    have c1': "\<forall>rc. ChildExit Send rc \<in> set (trace w3) - set (trace w) \<longrightarrow>
           rc = exit_code e Send \<and>
           (rc \<noteq> 0 \<longrightarrow> Inl (SystemExit 1) = (Inl (SystemExit 1) :: raised + unit) \<and>
              Print (ErrSendFailed rc) \<in> set (trace w3) \<and> recv_stopped e w3)"
      using c1 by blast
    have k1: "\<forall>x. (Inl (SystemExit 1) :: raised + unit) = Inl (Exc x) \<longrightarrow>
        (\<forall>rc. ChildExit Send rc \<notin> set (trace w3) - set (trace w))"
      by simp
    have k2: "(Inl (SystemExit 1) :: raised + unit) = Inl KeyboardInterrupt \<longrightarrow> interrupt e \<noteq> None"
      by simp
    show ?thesis
      unfolding eq xfer_ok_def fst_conv snd_conv
      by (intro conjI) (fact g3 gl fr sd c1' c2 k1 k2)+
  qed
qed

lemma main_logic_rule:
  assumes run: "main_logic e a w0 = (r, w)"
    and s0: "\<And>r1 w1. port_strategy e a w0 = (r1, w1) \<Longrightarrow>
               (case r1 of Inl x \<Rightarrow> Q (Inl x) w1 | Inr u \<Rightarrow> P1 w1)"
    and s1: "\<And>w1 r2 w2. P1 w1 \<Longrightarrow> tool_checks e a w1 = (r2, w2) \<Longrightarrow>
               (case r2 of Inl x \<Rightarrow> (case x of SystemExit c \<Rightarrow> Q (Inr ()) w2 | _ \<Rightarrow> Q (Inl x) w2)
                | Inr t \<Rightarrow> P2 w2)"
    and s1b: "\<And>w1 r2 w2. P2 w1 \<Longrightarrow> check_disk_image e a w1 = (r2, w2) \<Longrightarrow>
               (case r2 of Inl x \<Rightarrow> Q (Inl x) w2 | Inr u \<Rightarrow> P3 w2)"
    and s2: "\<And>w1 r2 w2. P3 w1 \<Longrightarrow> setup_dirs e w1 = (r2, w2) \<Longrightarrow>
               (case r2 of Inl x \<Rightarrow> Q (Inl x) w2 | Inr u \<Rightarrow> P4 w2)"
    and s3: "\<And>w1 r2 w2. P4 w1 \<Longrightarrow> socat_setup e w1 = (r2, w2) \<Longrightarrow>
               (case r2 of Inl x \<Rightarrow> Q (Inl x) w2 | Inr u \<Rightarrow> P5 w2)"
    and s4: "\<And>w1 r2 w2. P5 w1 \<Longrightarrow> extraction e w1 = (r2, w2) \<Longrightarrow>
               (case r2 of Inl x \<Rightarrow> Q (Inl x) w2 | Inr u \<Rightarrow> P6 w2)"
    and s5: "\<And>w1 r2 w2. P6 w1 \<Longrightarrow> send_and_receive e w1 = (r2, w2) \<Longrightarrow>
               (case r2 of Inl x \<Rightarrow> Q (Inl x) w2 | Inr u \<Rightarrow> P7 w2)"
    and s6: "\<And>w1 r2 w2. P7 w1 \<Longrightarrow> comparison e a w1 = (r2, w2) \<Longrightarrow> Q r2 w2"
  shows "Q r w"
proof -
  obtain r1 w1 where e0: "port_strategy e a w0 = (r1, w1)" by (cases "port_strategy e a w0")
  note h0 = s0 [OF e0]
  show ?thesis
  proof (cases r1)
    case (Inl x)
    with run e0 have "r = Inl x" "w = w1" by (simp_all add: main_logic_def andthen_def)
    with h0 Inl show ?thesis by simp
  next
    case r1: (Inr u1)
    with h0 have p1: "P1 w1" by simp
    obtain r2 w2 where e1: "tool_checks e a w1 = (r2, w2)" by (cases "tool_checks e a w1")
    note h1 = s1 [OF p1 e1]
    show ?thesis
    proof (cases r2)
      case (Inl x)
      show ?thesis
      proof (cases x)
        case (SystemExit c)
        with run e0 r1 e1 Inl have "r = Inr ()" "w = w2" by (simp_all add: main_logic_def andthen_def)
        with h1 Inl SystemExit show ?thesis by simp
      next
        case KeyboardInterrupt
        with run e0 r1 e1 Inl have "r = Inl x" "w = w2" by (simp_all add: main_logic_def andthen_def)
        with h1 Inl KeyboardInterrupt show ?thesis by simp
      next
        case (Exc y)
        with run e0 r1 e1 Inl have "r = Inl x" "w = w2" by (simp_all add: main_logic_def andthen_def)
        with h1 Inl Exc show ?thesis by simp
      qed
    next
      case r2: (Inr t)
      with h1 have p2: "P2 w2" by simp
      obtain r3 w3 where e2: "check_disk_image e a w2 = (r3, w3)" by (cases "check_disk_image e a w2")
      note h2 = s1b [OF p2 e2]
      show ?thesis
      proof (cases r3)
        case (Inl x)
        with run e0 r1 e1 r2 e2 have "r = Inl x" "w = w3" by (simp_all add: main_logic_def andthen_def)
        with h2 Inl show ?thesis by simp
      next
        case r3: (Inr u3)
        with h2 have p3: "P3 w3" by simp
        obtain r4 w4 where e3: "setup_dirs e w3 = (r4, w4)" by (cases "setup_dirs e w3")
        note h3 = s2 [OF p3 e3]
        show ?thesis
        proof (cases r4)
          case (Inl x)
          with run e0 r1 e1 r2 e2 r3 e3 have "r = Inl x" "w = w4"
            by (simp_all add: main_logic_def andthen_def)
          with h3 Inl show ?thesis by simp
        next
          case r4: (Inr u4)
          with h3 have p4: "P4 w4" by simp
          obtain r5 w5 where e4: "socat_setup e w4 = (r5, w5)" by (cases "socat_setup e w4")
          note h4 = s3 [OF p4 e4]
          show ?thesis
          proof (cases r5)
            case (Inl x)
            with run e0 r1 e1 r2 e2 r3 e3 r4 e4 have "r = Inl x" "w = w5"
              by (simp_all add: main_logic_def andthen_def)
            with h4 Inl show ?thesis by simp
          next
            case r5: (Inr u5)
            with h4 have p5: "P5 w5" by simp
            obtain r6 w6 where e5: "extraction e w5 = (r6, w6)" by (cases "extraction e w5")
            note h5 = s4 [OF p5 e5]
            show ?thesis
            proof (cases r6)
              case (Inl x)
              with run e0 r1 e1 r2 e2 r3 e3 r4 e4 r5 e5 have "r = Inl x" "w = w6"
                by (simp_all add: main_logic_def andthen_def)
              with h5 Inl show ?thesis by simp
            next
              case r6: (Inr u6)
              with h5 have p6: "P6 w6" by simp
              obtain r7 w7 where e6: "send_and_receive e w6 = (r7, w7)"
                by (cases "send_and_receive e w6")
              note h6 = s5 [OF p6 e6]
              show ?thesis
              proof (cases r7)
                case (Inl x)
                with run e0 r1 e1 r2 e2 r3 e3 r4 e4 r5 e5 r6 e6 have "r = Inl x" "w = w7"
                  by (simp_all add: main_logic_def andthen_def)
                with h6 Inl show ?thesis by simp
              next
                case r7: (Inr u7)
                with h6 have p7: "P7 w7" by simp
                from run e0 r1 e1 r2 e2 r3 e3 r4 e4 r5 e5 r6 e6 r7
                have "comparison e a w7 = (r, w)"
                  by (simp add: main_logic_def andthen_def)
                from s6 [OF p7 this] show ?thesis .
              qed
            qed
          qed
        qed
      qed
    qed
  qed
qed

lemma socat_setup_grows: "socat_setup e w = (r, w') \<Longrightarrow> grows {3} w w'"
proof (cases "use_socat_globally w")
  case True
  assume "socat_setup e w = (r, w')"
  from socat_setup_step [OF this True] show ?thesis by (rule conjunct1)
next
  case False
  assume "socat_setup e w = (r, w')"
  with socat_setup_skip [of w e] False have "w' = w" by simp
  then show ?thesis by simp
qed

lemma stage_grows:
  "port_strategy e a w = (r0, w') \<Longrightarrow> grows {0} w w'"
  "tool_checks e a w = (r1, w') \<Longrightarrow> grows {1} w w'"
  "check_disk_image e a w = (r0, w') \<Longrightarrow> grows {1} w w'"
  "setup_dirs e w = (r0, w') \<Longrightarrow> grows {2} w w'"
  "socat_setup e w = (r0, w') \<Longrightarrow> grows {3} w w'"
  "extraction e w = (r0, w') \<Longrightarrow> grows {4} w w'"
  "send_and_receive e w = (r0, w') \<Longrightarrow> grows {5} w w'"
  "comparison e a w = (r0, w') \<Longrightarrow> grows {6} w w'"
proof -
  show "port_strategy e a w = (r0, w') \<Longrightarrow> grows {0} w w'"
    by (drule port_strategy_step) (rule conjunct1)
  show "tool_checks e a w = (r1, w') \<Longrightarrow> grows {1} w w'"
    using tool_checks_step [of w e a] by (simp add: tool_step_def)
  show "check_disk_image e a w = (r0, w') \<Longrightarrow> grows {1} w w'"
    by (drule check_disk_image_step) (rule conjunct1)
  show "setup_dirs e w = (r0, w') \<Longrightarrow> grows {2} w w'"
    by (drule setup_dirs_step) (rule conjunct1)
  show "socat_setup e w = (r0, w') \<Longrightarrow> grows {3} w w'"
    by (rule socat_setup_grows)
  show "extraction e w = (r0, w') \<Longrightarrow> grows {4} w w'"
    by (drule extraction_step) (rule conjunct1)
  show "send_and_receive e w = (r0, w') \<Longrightarrow> grows {5} w w'"
    using send_and_receive_ok [of e w] by (simp add: xfer_ok_def)
  show "comparison e a w = (r0, w') \<Longrightarrow> grows {6} w w'"
    by (drule comparison_step) (rule conjunct1)
qed

text \<open>An event that no step of a set produces is not new.\<close>

lemma grows_old:
  "grows K w w' \<Longrightarrow> ev \<in> set (trace w') \<Longrightarrow> (\<And>k. k \<in> K \<Longrightarrow> \<not> step_event k ev) \<Longrightarrow> ev \<in> set (trace w)"
  using grows_mem by blast

lemma main_logic_grows:
  assumes "main_logic e a w0 = (r, w)"
  shows "grows {0, 1, 2, 3, 4, 5, 6} w0 w"
proof -
  let ?K = "{0, 1, 2, 3, 4, 5, 6} :: nat set"
  let ?P = "\<lambda>w. grows ?K w0 w"
  have step: "\<And>k w1 w2. grows {k} w1 w2 \<Longrightarrow> k \<in> ?K \<Longrightarrow> ?P w1 \<Longrightarrow> ?P w2"
  proof -
    fix k w1 w2 assume g: "grows {k} w1 w2" and k: "k \<in> ?K" and p: "?P w1"
    from k have "{k} \<subseteq> ?K" by simp
    with g have "grows ?K w1 w2" by (rule grows_mono)
    with p show "?P w2" by (rule grows_trans)
  qed
  show ?thesis
  proof (rule main_logic_rule [OF assms, where Q = "\<lambda>r. ?P" and ?P1.0 = ?P and ?P2.0 = ?P and ?P3.0 = ?P
        and ?P4.0 = ?P and ?P5.0 = ?P and ?P6.0 = ?P and ?P7.0 = ?P])
    fix r1 w1 assume "port_strategy e a w0 = (r1, w1)"
    from step [OF stage_grows(1) [OF this]] show "case r1 of Inl x \<Rightarrow> ?P w1 | Inr u \<Rightarrow> ?P w1"
      by (simp split: sum.splits)
  next
    fix w1 r2 w2 assume "?P w1" "tool_checks e a w1 = (r2, w2)"
    from step [OF stage_grows(2) [OF this(2)] _ this(1)]
    show "case r2 of Inl x \<Rightarrow> (case x of SystemExit c \<Rightarrow> ?P w2 | _ \<Rightarrow> ?P w2) | Inr t \<Rightarrow> ?P w2"
      by (simp split: sum.splits raised.splits)
  next
    fix w1 r2 w2 assume "?P w1" "check_disk_image e a w1 = (r2, w2)"
    from step [OF stage_grows(3) [OF this(2)] _ this(1)]
    show "case r2 of Inl x \<Rightarrow> ?P w2 | Inr u \<Rightarrow> ?P w2" by (simp split: sum.splits)
  next
    fix w1 r2 w2 assume "?P w1" "setup_dirs e w1 = (r2, w2)"
    from step [OF stage_grows(4) [OF this(2)] _ this(1)]
    show "case r2 of Inl x \<Rightarrow> ?P w2 | Inr u \<Rightarrow> ?P w2" by (simp split: sum.splits)
  next
    fix w1 r2 w2 assume "?P w1" "socat_setup e w1 = (r2, w2)"
    from step [OF stage_grows(5) [OF this(2)] _ this(1)]
    show "case r2 of Inl x \<Rightarrow> ?P w2 | Inr u \<Rightarrow> ?P w2" by (simp split: sum.splits)
  next
    fix w1 r2 w2 assume "?P w1" "extraction e w1 = (r2, w2)"
    from step [OF stage_grows(6) [OF this(2)] _ this(1)]
    show "case r2 of Inl x \<Rightarrow> ?P w2 | Inr u \<Rightarrow> ?P w2" by (simp split: sum.splits)
  next
    fix w1 r2 w2 assume "?P w1" "send_and_receive e w1 = (r2, w2)"
    from step [OF stage_grows(7) [OF this(2)] _ this(1)]
    show "case r2 of Inl x \<Rightarrow> ?P w2 | Inr u \<Rightarrow> ?P w2" by (simp split: sum.splits)
  next
    fix w1 r2 w2 assume "?P w1" "comparison e a w1 = (r2, w2)"
    from step [OF stage_grows(8) [OF this(2)] _ this(1)]
    show "?P w2" by simp
  qed
qed

text \<open>The trace of one call of cleanup, written out.\<close>

lemma cleanup_trace:
  "trace (cleanup e w) = trace w @ [Print CleaningUp] @
     (case socat_process w of
        None \<Rightarrow> []
      | Some p \<Rightarrow>
          if use_socat_globally w then
            [Print StoppingSocat, Terminate p] @
            (if procs (terminate e p (emit (Print StoppingSocat) (emit (Print CleaningUp) w))) p = Signalled SIGTERM
                \<and> exits_in_grace e = False
             then [Print ForcingSocat, Kill p] else [])
          else []) @
     (if temp_base_dir_path w = None \<or> session_root w = None then [] else [Print RemovingTemp, Rmtree]) @
     [Print CleanupComplete]"
  by (simp add: cleanup_def Let_def split: option.splits)

lemma cleanup_ports:
  "port_for_recv (cleanup e w) = port_for_recv w" "port_for_send (cleanup e w) = port_for_send w"
  by (simp_all add: cleanup_def Let_def split: option.splits)

lemma cleanup_procs_other:
  "socat_process w \<noteq> Some q \<Longrightarrow> procs (cleanup e w) q = procs w q"
  by (auto simp add: cleanup_def Let_def split: option.splits)

lemma cleanup_socat_stopped:
  "socat_process w = Some p \<Longrightarrow> use_socat_globally w \<Longrightarrow> procs (cleanup e w) p \<noteq> Running"
  by (auto simp add: cleanup_def Let_def split: option.splits)

lemma cleanup_grows:
  assumes "socat_process w = None \<or> socat_process w = Some Socat"
  shows "grows {7} w (cleanup e w)"
proof -
  let ?evs = "[Print CleaningUp] @
     (case socat_process w of
        None \<Rightarrow> []
      | Some p \<Rightarrow>
          if use_socat_globally w then
            [Print StoppingSocat, Terminate p] @
            (if procs (terminate e p (emit (Print StoppingSocat) (emit (Print CleaningUp) w))) p = Signalled SIGTERM
                \<and> exits_in_grace e = False
             then [Print ForcingSocat, Kill p] else [])
          else []) @
     (if temp_base_dir_path w = None \<or> session_root w = None then [] else [Print RemovingTemp, Rmtree]) @
     [Print CleanupComplete]"
  have t: "trace (cleanup e w) = trace w @ ?evs" by (rule cleanup_trace)
  have "list_all (\<lambda>ev. \<exists>k\<in>{7}. step_event k ev) ?evs"
    using assms by (auto split: option.splits)
  with t show ?thesis by (rule grows_app)
qed

lemma finally_block_cases:
  "finally_block e w = w \<or>
   (finally_block e w = cleanup e w \<and> temp_base_dir_path w \<noteq> None \<and> session_root w \<noteq> None)"
  by (simp add: finally_block_def)

lemma script_eq:
  "main_logic e a (initial e) = (r, w) \<Longrightarrow> script e a = (exit_status r, after_main e r w)"
  by (simp add: script_def)

lemma script_obtain:
  assumes "script e a = (code, wend)"
  obtains r w where "main_logic e a (initial e) = (r, w)" "code = exit_status r" "wend = after_main e r w"
proof -
  obtain r w where m: "main_logic e a (initial e) = (r, w)" by (cases "main_logic e a (initial e)")
  from script_eq [OF m] assms have "code = exit_status r" "wend = after_main e r w" by simp_all
  with m that show ?thesis by blast
qed

lemma socat_handle_cleanup:
  "socat_process w = None \<or> socat_process w = Some Socat \<Longrightarrow>
   socat_process (cleanup e w) = None \<or> socat_process (cleanup e w) = Some Socat"
  by (auto simp: cleanup_socat_process)

lemma finally_grows:
  assumes "socat_process w = None \<or> socat_process w = Some Socat"
  shows "grows {7} w (finally_block e w)"
  using finally_block_cases [of e w] cleanup_grows [OF assms, of e] by auto

lemma after_main_grows:
  assumes h: "socat_process w = None \<or> socat_process w = Some Socat"
  shows "grows {7} w (after_main e r w)"
proof -
  have em: "\<And>m. printed_by m = 7 \<Longrightarrow> grows {7} w (emit (Print m) w)"
    by (rule grows_emit) simp_all
  have hm: "\<And>m. socat_process (emit (Print m) w) = None \<or> socat_process (emit (Print m) w) = Some Socat"
    using h by simp
  have cf: "\<And>w1. socat_process w1 = None \<or> socat_process w1 = Some Socat \<Longrightarrow> grows {7} w w1 \<Longrightarrow>
      grows {7} w (finally_block e (cleanup e w1))"
  proof -
    fix w1 assume a: "socat_process w1 = None \<or> socat_process w1 = Some Socat" and g: "grows {7} w w1"
    from g cleanup_grows [OF a, of e] have "grows {7} w (cleanup e w1)" by (rule grows_trans)
    moreover have "grows {7} (cleanup e w1) (finally_block e (cleanup e w1))"
      by (rule finally_grows) (rule socat_handle_cleanup [OF a])
    ultimately show "grows {7} w (finally_block e (cleanup e w1))" by (rule grows_trans)
  qed
  show ?thesis
  proof (cases r)
    case (Inr u)
    then show ?thesis using finally_grows [OF h, of e] by (simp add: after_main_def)
  next
    case (Inl x)
    show ?thesis
    proof (cases x)
      case (SystemExit c)
      define w1 where "w1 = (if c \<noteq> 0 then emit (Print (ExitingWithCode c)) w else w)"
      have am: "after_main e r w =
          finally_block e (if temp_base_dir_path w1 = None then w1 else cleanup e w1)"
        using Inl SystemExit by (simp add: after_main_def Let_def w1_def)
      have g1: "grows {7} w w1" using em [of "ExitingWithCode c"] by (simp add: w1_def)
      have h1: "socat_process w1 = None \<or> socat_process w1 = Some Socat" using h by (simp add: w1_def)
      show ?thesis
      proof (cases "temp_base_dir_path w1 = None")
        case True
        have "grows {7} w1 (finally_block e w1)" by (rule finally_grows [OF h1])
        with g1 have "grows {7} w (finally_block e w1)" by (rule grows_trans)
        with True show ?thesis unfolding am by simp
      next
        case False
        from cf [OF h1 g1] False show ?thesis unfolding am by auto
      qed
    next
      case KeyboardInterrupt
      have "grows {7} w (emit (Print Interrupted) w)" by (rule em) simp
      from cf [OF hm this] Inl KeyboardInterrupt show ?thesis
        by (simp add: after_main_def)
    next
      case (Exc y)
      have "grows {7} w (emit (Print Unexpected) w)" by (rule em) simp
      from cf [OF hm this] Inl Exc show ?thesis
        by (simp add: after_main_def)
    qed
  qed
qed

lemma finally_frame:
  "port_for_recv (finally_block e w) = port_for_recv w"
  "port_for_send (finally_block e w) = port_for_send w"
  "socat_process w \<noteq> Some q \<Longrightarrow> procs (finally_block e w) q = procs w q"
  by (simp_all add: finally_block_def cleanup_ports cleanup_procs_other)

lemma after_main_frame:
  "port_for_recv (after_main e r w) = port_for_recv w"
  "port_for_send (after_main e r w) = port_for_send w"
  by (simp_all add: after_main_def Let_def finally_frame cleanup_ports split: sum.splits raised.splits)

lemma after_main_procs:
  assumes h: "socat_process w = None \<or> socat_process w = Some Socat" and q: "q \<noteq> Socat"
  shows "procs (after_main e r w) q = procs w q"
proof -
  have c: "\<And>w1. socat_process w1 = None \<or> socat_process w1 = Some Socat \<Longrightarrow>
      procs (cleanup e w1) q = procs w1 q"
    using q by (auto intro: cleanup_procs_other)
  have f: "\<And>w1. socat_process w1 = None \<or> socat_process w1 = Some Socat \<Longrightarrow>
      procs (finally_block e w1) q = procs w1 q"
    using q by (auto intro: finally_frame(3))
  have fc: "\<And>w1. socat_process w1 = None \<or> socat_process w1 = Some Socat \<Longrightarrow>
      procs (finally_block e (cleanup e w1)) q = procs w1 q"
    using f [OF socat_handle_cleanup] c by simp
  have hm: "\<And>ev. socat_process (emit ev w) = None \<or> socat_process (emit ev w) = Some Socat"
    using h by simp
  show ?thesis
  proof (cases r)
    case (Inr u) then show ?thesis using f [OF h] by (simp add: after_main_def)
  next
    case (Inl x)
    show ?thesis
    proof (cases x)
      case (SystemExit c)
      define w1 where "w1 = (if c \<noteq> 0 then emit (Print (ExitingWithCode c)) w else w)"
      have am: "after_main e r w =
          finally_block e (if temp_base_dir_path w1 = None then w1 else cleanup e w1)"
        using Inl SystemExit by (simp add: after_main_def Let_def w1_def)
      have h1: "socat_process w1 = None \<or> socat_process w1 = Some Socat" using h by (simp add: w1_def)
      have p1: "procs w1 = procs w" by (simp add: w1_def)
      show ?thesis
      proof (cases "temp_base_dir_path w1 = None")
        case True
        then show ?thesis unfolding am using f [OF h1] p1 by simp
      next
        case False
        then show ?thesis unfolding am using fc [OF h1] p1 by auto
      qed
    next
      case KeyboardInterrupt
      with Inl show ?thesis using fc [OF hm] by (simp add: after_main_def)
    next
      case (Exc y)
      with Inl show ?thesis using fc [OF hm] by (simp add: after_main_def)
    qed
  qed
qed

lemma globals_eqD:
  "globals w' = globals w \<Longrightarrow>
   socat_process w' = socat_process w \<and> port_for_recv w' = port_for_recv w \<and>
   port_for_send w' = port_for_send w \<and> temp_base_dir_path w' = temp_base_dir_path w \<and>
   use_socat_globally w' = use_socat_globally w \<and> session_root w' = session_root w"
  by (simp add: globals_def)

lemma idle_run_inv: "idle w \<Longrightarrow> run_inv w"
  by (simp add: idle_def run_inv_def)

lemma run_inv_handle: "run_inv w \<Longrightarrow> socat_process w = None \<or> socat_process w = Some Socat"
  by (auto simp: run_inv_def)

lemma spawn_socat_old:
  "grows {k} w w' \<Longrightarrow> k \<noteq> 3 \<Longrightarrow> (Spawn Socat \<in> set (trace w')) = (Spawn Socat \<in> set (trace w))"
proof -
  assume g: "grows {k} w w'" and k: "k \<noteq> 3"
  have "Spawn Socat \<in> set (trace w') \<Longrightarrow> Spawn Socat \<in> set (trace w)"
    by (rule grows_old [OF g]) (use k in auto)
  with grows_keeps [OF g] show ?thesis by blast
qed

lemma idle_step:
  assumes "idle w" "grows {k} w w'" "k \<noteq> 3" "socat_process w' = socat_process w" "procs w' = procs w"
  shows "idle w'"
  using assms spawn_socat_old [OF assms(2,3)] by (simp add: idle_def)

lemma run_inv_step:
  assumes "run_inv w" "grows {k} w w'" "k \<noteq> 3" "globals w' = globals w"
    "procs w' Socat = procs w Socat"
    "procs w' Extractor \<noteq> Running" "procs w' Send \<noteq> Running" "procs w' Comparer \<noteq> Running"
  shows "run_inv w'"
  using assms(1,5-8) spawn_socat_old [OF assms(2,3)] globals_eqD [OF assms(4)]
  by (simp add: run_inv_def)

lemma main_logic_inv:
  assumes run: "main_logic e a w0 = (r, w)" and i0: "idle w0"
  shows "run_inv w"
proof (rule main_logic_rule [OF run, where Q = "\<lambda>r. run_inv" and ?P1.0 = idle and ?P2.0 = idle
        and ?P3.0 = idle and ?P4.0 = "\<lambda>w. idle w \<and> temp_base_dir_path w \<noteq> None"
        and ?P5.0 = run_inv and ?P6.0 = run_inv and ?P7.0 = run_inv])
  fix r1 w1 assume s: "port_strategy e a w0 = (r1, w1)"
  from port_strategy_step [OF s] have "grows {0} w0 w1" "socat_process w1 = socat_process w0"
    "procs w1 = procs w0" by simp_all
  with i0 have "idle w1" by (intro idle_step [of w0 0 w1]) simp_all
  then show "case r1 of Inl x \<Rightarrow> run_inv w1 | Inr u \<Rightarrow> idle w1"
    by (simp add: idle_run_inv split: sum.splits)
next
  fix w1 r2 w2 assume p: "idle w1" and s: "tool_checks e a w1 = (r2, w2)"
  from tool_checks_step [of w1 e a] s have "grows {1} w1 w2" "globals w2 = globals w1"
    "procs w2 = procs w1" by (simp_all add: tool_step_def)
  with p globals_eqD [of w2 w1] have "idle w2" by (intro idle_step [of w1 1 w2]) simp_all
  then show "case r2 of Inl x \<Rightarrow> (case x of SystemExit c \<Rightarrow> run_inv w2 | _ \<Rightarrow> run_inv w2) | Inr t \<Rightarrow> idle w2"
    by (simp add: idle_run_inv split: sum.splits raised.splits)
next
  fix w1 r2 w2 assume p: "idle w1" and s: "check_disk_image e a w1 = (r2, w2)"
  from check_disk_image_step [OF s] have "grows {1} w1 w2" "globals w2 = globals w1"
    "procs w2 = procs w1" by simp_all
  with p globals_eqD [of w2 w1] have "idle w2" by (intro idle_step [of w1 1 w2]) simp_all
  then show "case r2 of Inl x \<Rightarrow> run_inv w2 | Inr u \<Rightarrow> idle w2"
    by (simp add: idle_run_inv split: sum.splits)
next
  fix w1 r2 w2 assume p: "idle w1" and s: "setup_dirs e w1 = (r2, w2)"
  from setup_dirs_step [OF s] have "grows {2} w1 w2" "socat_process w2 = socat_process w1"
    "procs w2 = procs w1" "temp_base_dir_path w2 \<noteq> None" by simp_all
  with p have "idle w2" "temp_base_dir_path w2 \<noteq> None" by (simp_all add: idle_step [of w1 2 w2])
  then show "case r2 of Inl x \<Rightarrow> run_inv w2 | Inr u \<Rightarrow> idle w2 \<and> temp_base_dir_path w2 \<noteq> None"
    by (simp add: idle_run_inv split: sum.splits)
next
  fix w1 r2 w2 assume p: "idle w1 \<and> temp_base_dir_path w1 \<noteq> None" and s: "socat_setup e w1 = (r2, w2)"
  have "run_inv w2"
  proof (cases "use_socat_globally w1")
    case False
    with socat_setup_skip [of w1 e] s have "w2 = w1" by simp
    with p show ?thesis by (simp add: idle_run_inv)
  next
    case True
    note st = socat_setup_step [OF s True]
    from st have fr: "\<forall>q. q \<noteq> Socat \<longrightarrow> procs w2 q = procs w1 q"
      "temp_base_dir_path w2 = temp_base_dir_path w1" "use_socat_globally w2 = use_socat_globally w1"
      by simp_all
    from p have n: "procs w1 Extractor = NotStarted" "procs w1 Send = NotStarted"
      "procs w1 Comparer = NotStarted" "procs w1 Socat = NotStarted" "socat_process w1 = None"
      "Spawn Socat \<notin> set (trace w1)"
      by (simp_all add: idle_def)
    from fr(1) n have o: "procs w2 Extractor \<noteq> Running" "procs w2 Send \<noteq> Running"
      "procs w2 Comparer \<noteq> Running" by simp_all
    from st have "(socat_process w2 = socat_process w1 \<and> procs w2 = procs w1 \<and>
         trace w2 = trace w1 @ [Print StartingSocat, Print ErrStartingSocat]) \<or>
      (socat_process w2 = Some Socat \<and> Spawn Socat \<in> set (trace w2) \<and> procs w2 Socat \<noteq> NotStarted)"
      by blast
    then show ?thesis
    proof
      assume "socat_process w2 = socat_process w1 \<and> procs w2 = procs w1 \<and>
         trace w2 = trace w1 @ [Print StartingSocat, Print ErrStartingSocat]"
      with n o show ?thesis by (simp add: run_inv_def)
    next
      assume "socat_process w2 = Some Socat \<and> Spawn Socat \<in> set (trace w2) \<and> procs w2 Socat \<noteq> NotStarted"
      with o fr True p show ?thesis by (simp add: run_inv_def)
    qed
  qed
  then show "case r2 of Inl x \<Rightarrow> run_inv w2 | Inr u \<Rightarrow> run_inv w2" by (simp split: sum.splits)
next
  fix w1 r2 w2 assume p: "run_inv w1" and s: "extraction e w1 = (r2, w2)"
  note st = extraction_step [OF s]
  from st have g: "grows {4} w1 w2" and gl: "globals w2 = globals w1"
    and fr: "\<forall>q. q \<noteq> Extractor \<longrightarrow> procs w2 q = procs w1 q"
    and ex: "procs w1 Extractor = Running \<or> procs w2 Extractor \<noteq> Running" by simp_all
  from p have n: "procs w1 Extractor \<noteq> Running" "procs w1 Send \<noteq> Running" "procs w1 Comparer \<noteq> Running"
    by (simp_all add: run_inv_def)
  have "run_inv w2"
    by (rule run_inv_step [OF p g _ gl]) (use fr ex n in simp_all)
  then show "case r2 of Inl x \<Rightarrow> run_inv w2 | Inr u \<Rightarrow> run_inv w2" by (simp split: sum.splits)
next
  fix w1 r2 w2 assume p: "run_inv w1" and s: "send_and_receive e w1 = (r2, w2)"
  from send_and_receive_ok [of e w1] s have g: "grows {5} w1 w2" and gl: "globals w2 = globals w1"
    and fr: "\<forall>q. q \<noteq> Recv \<and> q \<noteq> Send \<longrightarrow> procs w2 q = procs w1 q"
    and ex: "procs w1 Send = Running \<or> procs w2 Send \<noteq> Running" by (simp_all add: xfer_ok_def)
  from p have n: "procs w1 Extractor \<noteq> Running" "procs w1 Send \<noteq> Running" "procs w1 Comparer \<noteq> Running"
    by (simp_all add: run_inv_def)
  have "run_inv w2"
    by (rule run_inv_step [OF p g _ gl]) (use fr ex n in simp_all)
  then show "case r2 of Inl x \<Rightarrow> run_inv w2 | Inr u \<Rightarrow> run_inv w2" by (simp split: sum.splits)
next
  fix w1 r2 w2 assume p: "run_inv w1" and s: "comparison e a w1 = (r2, w2)"
  note st = comparison_step [OF s]
  from st have g: "grows {6} w1 w2" and gl: "globals w2 = globals w1"
    and fr: "\<forall>q. q \<noteq> Comparer \<longrightarrow> procs w2 q = procs w1 q"
    and ex: "procs w1 Comparer = Running \<or> procs w2 Comparer \<noteq> Running" by simp_all
  from p have n: "procs w1 Extractor \<noteq> Running" "procs w1 Send \<noteq> Running" "procs w1 Comparer \<noteq> Running"
    by (simp_all add: run_inv_def)
  show "run_inv w2"
    by (rule run_inv_step [OF p g _ gl]) (use fr ex n in simp_all)
qed

lemma idle_initial: "idle (initial e)"
  by (simp add: idle_def initial_def)

lemma xfer_ok_sender:
  assumes "send_and_receive e w = (r, w')" "ChildExit Send rc \<in> set (trace w')"
    "ChildExit Send rc \<notin> set (trace w)" "rc \<noteq> 0"
  shows "r = Inl (SystemExit 1) \<and> Print (ErrSendFailed rc) \<in> set (trace w') \<and> recv_stopped e w'"
proof -
  note c = send_and_receive_ok [of e w, unfolded assms(1) xfer_ok_def fst_conv snd_conv]
  note ce = c [THEN conjunct2, THEN conjunct2, THEN conjunct2, THEN conjunct2, THEN conjunct1]
  from assms(2,3) have "ChildExit Send rc \<in> set (trace w') - set (trace w)" by simp
  with ce assms(4) show ?thesis by blast
qed

lemma main_logic_sender_failed:
  assumes run: "main_logic e a w0 = (r, w)" and n0: "ChildExit Send rc \<notin> set (trace w0)"
    and rc: "rc \<noteq> 0" and ev: "ChildExit Send rc \<in> set (trace w)"
  shows "r = Inl (SystemExit 1) \<and> Print (ErrSendFailed rc) \<in> set (trace w) \<and> recv_stopped e w"
proof -
  let ?N = "\<lambda>w. ChildExit Send rc \<notin> set (trace w)"
  let ?Q = "\<lambda>r w. ChildExit Send rc \<in> set (trace w) \<longrightarrow>
     r = Inl (SystemExit 1) \<and> Print (ErrSendFailed rc) \<in> set (trace w) \<and> recv_stopped e w"
  have keep: "\<And>k w1 w2. ?N w1 \<Longrightarrow> grows {k} w1 w2 \<Longrightarrow> k \<noteq> 5 \<Longrightarrow> ?N w2"
  proof
    fix k w1 w2 assume n: "?N w1" and g: "grows {k} w1 w2" and k: "k \<noteq> 5"
      and m: "ChildExit Send rc \<in> set (trace w2)"
    have "ChildExit Send rc \<in> set (trace w1)"
      by (rule grows_old [OF g m]) (use k in auto)
    with n show False by simp
  qed
  have "?Q r w"
  proof (rule main_logic_rule [OF run, where Q = ?Q and ?P1.0 = ?N and ?P2.0 = ?N and ?P3.0 = ?N
        and ?P4.0 = ?N and ?P5.0 = ?N and ?P6.0 = ?N and ?P7.0 = ?N])
    fix r1 w1 assume s: "port_strategy e a w0 = (r1, w1)"
    from keep [OF n0 stage_grows(1) [OF s]] show "case r1 of Inl x \<Rightarrow> ?Q (Inl x) w1 | Inr u \<Rightarrow> ?N w1"
      by (simp split: sum.splits)
  next
    fix w1 r2 w2 assume p: "?N w1" and s: "tool_checks e a w1 = (r2, w2)"
    from keep [OF p stage_grows(2) [OF s]]
    show "case r2 of Inl x \<Rightarrow> (case x of SystemExit c \<Rightarrow> ?Q (Inr ()) w2 | _ \<Rightarrow> ?Q (Inl x) w2) | Inr t \<Rightarrow> ?N w2"
      by (simp split: sum.splits raised.splits)
  next
    fix w1 r2 w2 assume p: "?N w1" and s: "check_disk_image e a w1 = (r2, w2)"
    from keep [OF p stage_grows(3) [OF s]] show "case r2 of Inl x \<Rightarrow> ?Q (Inl x) w2 | Inr u \<Rightarrow> ?N w2"
      by (simp split: sum.splits)
  next
    fix w1 r2 w2 assume p: "?N w1" and s: "setup_dirs e w1 = (r2, w2)"
    from keep [OF p stage_grows(4) [OF s]] show "case r2 of Inl x \<Rightarrow> ?Q (Inl x) w2 | Inr u \<Rightarrow> ?N w2"
      by (simp split: sum.splits)
  next
    fix w1 r2 w2 assume p: "?N w1" and s: "socat_setup e w1 = (r2, w2)"
    from keep [OF p stage_grows(5) [OF s]] show "case r2 of Inl x \<Rightarrow> ?Q (Inl x) w2 | Inr u \<Rightarrow> ?N w2"
      by (simp split: sum.splits)
  next
    fix w1 r2 w2 assume p: "?N w1" and s: "extraction e w1 = (r2, w2)"
    from keep [OF p stage_grows(6) [OF s]] show "case r2 of Inl x \<Rightarrow> ?Q (Inl x) w2 | Inr u \<Rightarrow> ?N w2"
      by (simp split: sum.splits)
  next
    fix w1 r2 w2 assume p: "?N w1" and s: "send_and_receive e w1 = (r2, w2)"
    show "case r2 of Inl x \<Rightarrow> ?Q (Inl x) w2 | Inr u \<Rightarrow> ?N w2"
    proof (cases "ChildExit Send rc \<in> set (trace w2)")
      case False
      then show ?thesis by (simp split: sum.splits)
    next
      case True
      from xfer_ok_sender [OF s True p rc] show ?thesis by (simp split: sum.splits)
    qed
  next
    fix w1 r2 w2 assume p: "?N w1" and s: "comparison e a w1 = (r2, w2)"
    from keep [OF p stage_grows(8) [OF s]] show "?Q r2 w2" by simp
  qed
  with ev show ?thesis by simp
qed

text \<open>
  Claim C2.  In every run in which the sender exits with a non-zero status, the harness
  reports the failure of the sender and exits with status 1, and the receiver is not left
  running: when it had not ended by itself, the harness has called \<open>terminate()\<close> on it.
\<close>

theorem sender_failure_stops_receiver:
  assumes "script e a = (code, wend)" and "ChildExit Send rc \<in> set (trace wend)" and "rc \<noteq> 0"
  shows "code = 1 \<and> Print (ErrSendFailed rc) \<in> set (trace wend) \<and> recv_stopped e wend"
proof -
  from assms(1) obtain r w where m: "main_logic e a (initial e) = (r, w)"
    and code: "code = exit_status r" and wend: "wend = after_main e r w"
    by (rule script_obtain)
  have inv: "run_inv w" using m idle_initial by (rule main_logic_inv)
  note h = run_inv_handle [OF inv]
  have g: "grows {7} w wend" unfolding wend by (rule after_main_grows [OF h])
  have ev: "ChildExit Send rc \<in> set (trace w)"
    by (rule grows_old [OF g assms(2)]) simp
  have n0: "ChildExit Send rc \<notin> set (trace (initial e))" by (simp add: initial_def)
  from main_logic_sender_failed [OF m n0 assms(3) ev]
  have r: "r = Inl (SystemExit 1)" and p: "Print (ErrSendFailed rc) \<in> set (trace w)"
    and s: "recv_stopped e w" by simp_all
  have pr: "procs wend Recv = procs w Recv" unfolding wend by (rule after_main_procs [OF h]) simp
  have "recv_stopped e wend"
    using s pr grows_keeps [OF g, of "Terminate Recv"] by (auto simp: recv_stopped_def)
  with r code grows_keeps [OF g p] show ?thesis by (simp add: exit_status_def)
qed

end
